theory Spec2Isabelle
  imports Main "HOL-Library.List_Lexorder" "HOL-Library.Code_Target_Nat"
begin

section \<open>Python strings\<close>

text \<open>
  The comparison engine (\<^verbatim>\<open>comparator/compare_content.py\<close>) works on Python
  \<^verbatim>\<open>str\<close> values, which are sequences of Unicode code points. A character is
  modelled by its code point and a string by the list of its code points, so that the
  glyphs the module names (U+2022, U+2192, U+2500, ...) are single characters, as they are
  for Python. \<open>lit\<close> turns an ASCII literal into such a string.

  Python's own tables are reproduced as follows. White space (\<^verbatim>\<open>str.strip\<close>,
  \<^verbatim>\<open>\s\<close>) and line boundaries (\<^verbatim>\<open>str.splitlines\<close>) are CPython's
  complete tables. Decimal digits (\<^verbatim>\<open>\d\<close>, \<^verbatim>\<open>int\<close>) and case mapping
  (\<^verbatim>\<open>str.lower\<close>) are the ASCII part of the Unicode tables: a digit of another
  script is not a digit here and a letter outside A-Z is its own lower case. Integers are
  unbounded (no limit on the length of a number that \<^verbatim>\<open>int\<close> reads), and strings
  compare by code point, which is the lexicographic order on lists.
\<close>

type_synonym pystr = "nat list"

definition lit :: "string \<Rightarrow> pystr" where
  "lit s = map of_char s"

definition isspace :: "nat \<Rightarrow> bool" where
  "isspace c \<longleftrightarrow>
     (9 \<le> c \<and> c \<le> 13) \<or> (28 \<le> c \<and> c \<le> 32) \<or> c = 133 \<or> c = 160 \<or> c = 5760 \<or>
     (8192 \<le> c \<and> c \<le> 8202) \<or> c = 8232 \<or> c = 8233 \<or> c = 8239 \<or> c = 8287 \<or>
     c = 12288"

definition islinebreak :: "nat \<Rightarrow> bool" where
  "islinebreak c \<longleftrightarrow>
     (10 \<le> c \<and> c \<le> 13) \<or> (28 \<le> c \<and> c \<le> 30) \<or> c = 133 \<or> c = 8232 \<or> c = 8233"

definition isdigit :: "nat \<Rightarrow> bool" where
  "isdigit c \<longleftrightarrow> 48 \<le> c \<and> c \<le> 57"

definition lower_char :: "nat \<Rightarrow> nat" where
  "lower_char c = (if 65 \<le> c \<and> c \<le> 90 then c + 32 else c)"

definition lower :: "pystr \<Rightarrow> pystr" where
  "lower s = map lower_char s"

text \<open>\<^verbatim>\<open>s.lstrip(chars)\<close>, \<^verbatim>\<open>s.rstrip(chars)\<close> and \<^verbatim>\<open>s.strip()\<close>.\<close>

definition lstrip_chars :: "(nat \<Rightarrow> bool) \<Rightarrow> pystr \<Rightarrow> pystr" where
  "lstrip_chars P s = dropWhile P s"

definition rstrip_chars :: "(nat \<Rightarrow> bool) \<Rightarrow> pystr \<Rightarrow> pystr" where
  "rstrip_chars P s = rev (dropWhile P (rev s))"

definition strip :: "pystr \<Rightarrow> pystr" where
  "strip s = rstrip_chars isspace (lstrip_chars isspace s)"

text \<open>\<^verbatim>\<open>s.startswith(p)\<close> and \<^verbatim>\<open>sub in s\<close>.\<close>

definition startswith :: "pystr \<Rightarrow> pystr \<Rightarrow> bool" where
  "startswith s p \<longleftrightarrow> take (length p) s = p"

fun contains :: "pystr \<Rightarrow> pystr \<Rightarrow> bool" where
  "contains [] sub = (sub = [])"
| "contains (c # cs) sub = (startswith (c # cs) sub \<or> contains cs sub)"

text \<open>
  \<^verbatim>\<open>s.splitlines()\<close>: the text is cut at every line boundary, \<^verbatim>\<open>\r\n\<close>
  counting as one, and a boundary at the very end opens no further line. \<open>cur\<close> is
  the line read so far.
\<close>

fun splitlines_from :: "pystr \<Rightarrow> pystr \<Rightarrow> pystr list" where
  "splitlines_from cur [] = (if cur = [] then [] else [cur])"
| "splitlines_from cur (c # cs) =
     (if c = 13 then
        (case cs of
           [] \<Rightarrow> [cur]
         | d # ds \<Rightarrow> if d = 10 then cur # splitlines_from [] ds
                     else cur # splitlines_from [] cs)
      else if islinebreak c then cur # splitlines_from [] cs
      else splitlines_from (cur @ [c]) cs)"

definition splitlines :: "pystr \<Rightarrow> pystr list" where
  "splitlines s = splitlines_from [] s"

text \<open>\<^verbatim>\<open>s.split()\<close>: the maximal runs of characters that are not white space.\<close>

function split_ws :: "pystr \<Rightarrow> pystr list" where
  "split_ws s =
     (let s1 = dropWhile isspace s
      in if s1 = [] then []
         else takeWhile (\<lambda>c. \<not> isspace c) s1 # split_ws (dropWhile (\<lambda>c. \<not> isspace c) s1))"
  by pat_completeness auto
termination
proof (relation "measure length")
  show "wf (measure length)" by simp
next
  fix s s1 :: pystr
  assume s1: "s1 = dropWhile isspace s" and ne: "s1 \<noteq> []"
  from ne have "\<not> isspace (hd s1)"
    unfolding s1 using hd_dropWhile by blast
  with ne have "length (dropWhile (\<lambda>c. \<not> isspace c) s1) < length s1"
    by (cases s1) (auto simp: le_imp_less_Suc length_dropWhile_le)
  moreover have "length s1 \<le> length s"
    unfolding s1 by (rule length_dropWhile_le)
  ultimately show "(dropWhile (\<lambda>c. \<not> isspace c) s1, s) \<in> measure length"
    by simp
qed

declare split_ws.simps [simp del]

text \<open>\<^verbatim>\<open>'\n'.join(ls)\<close>, to write a text line by line; \<^verbatim>\<open>int(digits)\<close> on a
  run of decimal digits; \<^verbatim>\<open>str(n)\<close> as an f-string prints it.\<close>

definition join_lines :: "pystr list \<Rightarrow> pystr" where
  "join_lines ls = concat (case ls of [] \<Rightarrow> [] | l # rest \<Rightarrow> l # map (\<lambda>x. 10 # x) rest)"

definition int_of_digits :: "pystr \<Rightarrow> nat" where
  "int_of_digits ds = foldl (\<lambda>a d. 10 * a + (d - 48)) 0 ds"

fun str_of_nat :: "nat \<Rightarrow> pystr" where
  "str_of_nat n = (if n < 10 then [48 + n] else str_of_nat (n div 10) @ [48 + n mod 10])"

declare str_of_nat.simps [simp del]


section \<open>Normalization helpers\<close>

text \<open>
  The character classes of the module's patterns: the bullets of \<^verbatim>\<open>_BULLET_RE\<close>
  (U+2022, U+00B7, \<^verbatim>\<open>-\<close>, \<^verbatim>\<open>*\<close>, U+2023, U+25E6, U+2043, U+2219), the rule
  characters of \<^verbatim>\<open>_SEPARATOR_RE\<close> (\<^verbatim>\<open>- = * _\<close> and U+2500), the arrows of
  \<^verbatim>\<open>_ARROW_RE\<close> (U+2192, U+25BA, U+25B6, U+279C, U+27A4, U+00BB), the dashes of
  \<^verbatim>\<open>_TABLE_SEP_RE\<close> (\<^verbatim>\<open>-\<close> and U+2500).
\<close>

definition is_bullet :: "nat \<Rightarrow> bool" where
  "is_bullet c \<longleftrightarrow> c \<in> set [8226, 183, 45, 42, 8226, 8227, 9702, 8259, 8729]"

definition is_rule_char :: "nat \<Rightarrow> bool" where
  "is_rule_char c \<longleftrightarrow> c \<in> set [45, 61, 42, 95, 9472]"

definition is_arrow :: "nat \<Rightarrow> bool" where
  "is_arrow c \<longleftrightarrow> c \<in> set [8594, 9658, 9654, 10140, 10148, 187]"

definition is_table_dash :: "nat \<Rightarrow> bool" where
  "is_table_dash c \<longleftrightarrow> c \<in> set [45, 9472]"

text \<open>
  \<^verbatim>\<open>_BULLET_RE.sub('', s)\<close>. The pattern is anchored at the start, so it matches at
  most once: white space, one bullet, white space. No bullet is white space, so the greedy
  runs leave nothing to backtrack into.
\<close>

definition BULLET_RE_sub :: "pystr \<Rightarrow> pystr" where
  "BULLET_RE_sub s =
     (case dropWhile isspace s of
        [] \<Rightarrow> s
      | c # rest \<Rightarrow> if is_bullet c then dropWhile isspace rest else s)"

text \<open>
  \<^verbatim>\<open>_STEP_NUMBER_RE.match(s)\<close>: white space, a run of digits (group 1), one of
  \<^verbatim>\<open>.\<close> and \<^verbatim>\<open>)\<close>, white space. The result is group 1 and what follows the
  match.
\<close>

definition STEP_NUMBER_RE_match :: "pystr \<Rightarrow> (pystr \<times> pystr) option" where
  "STEP_NUMBER_RE_match s =
     (let s1 = dropWhile isspace s;
          ds = takeWhile isdigit s1
      in if ds = [] then None
         else case dropWhile isdigit s1 of
                [] \<Rightarrow> None
              | c # rest \<Rightarrow> if c = 46 \<or> c = 41 then Some (ds, dropWhile isspace rest)
                            else None)"

definition STEP_NUMBER_RE_sub :: "pystr \<Rightarrow> pystr" where
  "STEP_NUMBER_RE_sub s =
     (case STEP_NUMBER_RE_match s of None \<Rightarrow> s | Some (ds, rest) \<Rightarrow> rest)"

text \<open>
  \<^verbatim>\<open>_SEPARATOR_RE.match(s)\<close>: white space, three or more rule characters, then only
  white space up to the end (\<^verbatim>\<open>\s*$\<close>; a final newline that \<^verbatim>\<open>$\<close> may stand
  before is white space too).
\<close>

definition SEPARATOR_RE_match :: "pystr \<Rightarrow> bool" where
  "SEPARATOR_RE_match s \<longleftrightarrow>
     (let s1 = dropWhile isspace s
      in 3 \<le> length (takeWhile is_rule_char s1) \<and>
         dropWhile isspace (dropWhile is_rule_char s1) = [])"

text \<open>
  \<^verbatim>\<open>_TABLE_SEP_RE.match(s)\<close>: white space, a run of dashes, then one or more groups
  of at least two white-space characters and a run of dashes, then only white space.
  \<open>table_groups seen s\<close> reads \<open>s\<close> after a run of dashes; \<open>seen\<close> says that a
  group has been read.
\<close>

function table_groups :: "bool \<Rightarrow> pystr \<Rightarrow> bool" where
  "table_groups seen s =
     (let w = takeWhile isspace s;
          r = dropWhile isspace s
      in if r = [] then seen
         else if is_table_dash (hd r) \<and> 2 \<le> length w
              then table_groups True (dropWhile is_table_dash r)
              else False)"
  by pat_completeness auto
termination
proof (relation "measure (\<lambda>(seen, s). length s)")
  show "wf (measure (\<lambda>(seen, s). length s))" by simp
next
  fix seen :: bool and s w r :: pystr
  assume r: "r = dropWhile isspace s" and ne: "r \<noteq> []"
    and d: "is_table_dash (hd r) \<and> 2 \<le> length w"
  from ne d have "length (dropWhile is_table_dash r) < length r"
    by (cases r) (auto simp: le_imp_less_Suc length_dropWhile_le)
  moreover have "length r \<le> length s"
    unfolding r by (rule length_dropWhile_le)
  ultimately show "((True, dropWhile is_table_dash r), (seen, s))
      \<in> measure (\<lambda>(seen, s). length s)"
    by simp
qed

declare table_groups.simps [simp del]

definition TABLE_SEP_RE_match :: "pystr \<Rightarrow> bool" where
  "TABLE_SEP_RE_match s \<longleftrightarrow>
     (let s1 = dropWhile isspace s
      in takeWhile is_table_dash s1 \<noteq> [] \<and> table_groups False (dropWhile is_table_dash s1))"

text \<open>
  \<^verbatim>\<open>_ARROW_RE.sub(' > ', s)\<close>: scanning from the left, a match starts at the first
  position from which a run of white space leads to an arrow; the match takes that run, the
  arrow and the white space after it, and the scan goes on behind the match. A character
  at which no match starts is copied.
\<close>

function ARROW_RE_sub :: "pystr \<Rightarrow> pystr" where
  "ARROW_RE_sub [] = []"
| "ARROW_RE_sub (c # cs) =
     (case dropWhile isspace (c # cs) of
        [] \<Rightarrow> c # ARROW_RE_sub cs
      | a # rest \<Rightarrow> if is_arrow a then [32, 62, 32] @ ARROW_RE_sub (dropWhile isspace rest)
                    else c # ARROW_RE_sub cs)"
  by pat_completeness auto
termination
proof (relation "measure length")
  show "wf (measure length)" by simp
next
  fix c :: nat and cs :: pystr
  show "(cs, c # cs) \<in> measure length" by simp
next
  fix c a :: nat and cs rest :: pystr
  assume eq: "dropWhile isspace (c # cs) = a # rest"
  have "length (a # rest) \<le> length (c # cs)"
    unfolding eq [symmetric] by (rule length_dropWhile_le)
  moreover have "length (dropWhile isspace rest) \<le> length rest"
    by (rule length_dropWhile_le)
  ultimately show "(dropWhile isspace rest, c # cs) \<in> measure length"
    by simp
next
  fix c a :: nat and cs rest :: pystr
  show "(cs, c # cs) \<in> measure length" by simp
qed

text \<open>\<^verbatim>\<open>re.sub(r'\s+', ' ', s)\<close>: every run of white space becomes one space.\<close>

function collapse_ws :: "pystr \<Rightarrow> pystr" where
  "collapse_ws [] = []"
| "collapse_ws (c # cs) =
     (if isspace c then 32 # collapse_ws (dropWhile isspace cs) else c # collapse_ws cs)"
  by pat_completeness auto
termination
  by (relation "measure length") (auto simp: le_imp_less_Suc length_dropWhile_le)

definition normalize_line :: "pystr \<Rightarrow> pystr" where
  "normalize_line line =
     (if line = [] \<or> strip line = [] then []
      else let s = strip line;
               s = BULLET_RE_sub s;
               s = STEP_NUMBER_RE_sub s;
               s = ARROW_RE_sub s;
               s = lower (strip (collapse_ws s))
           in s)"

definition is_noise :: "pystr \<Rightarrow> bool" where
  "is_noise line =
     (let stripped = strip line
      in if stripped = [] then True
         else if SEPARATOR_RE_match stripped then True
         else if TABLE_SEP_RE_match stripped then True
         else False)"

section \<open>Semantic line classification\<close>

datatype category = section_header | instruction | prerequisite | note_block | content | noise

datatype severity = HIGH | MEDIUM | LOW

definition ACTION_VERBS :: "pystr list" where
  "ACTION_VERBS = map lit
     [''choose'', ''select'', ''click'', ''enter'', ''navigate'', ''open'', ''upload'',
      ''download'', ''save'', ''add'', ''remove'', ''delete'', ''create'', ''configure'',
      ''check'', ''verify'', ''confirm'', ''submit'', ''type'', ''drag'', ''drop'',
      ''browse'', ''expand'', ''collapse'', ''go'', ''log'', ''sign'', ''press'',
      ''enable'', ''disable'', ''set'', ''change'', ''update'', ''assign'', ''map'',
      ''register'', ''subscribe'', ''search'', ''copy'', ''paste'', ''refresh'']"

definition SECTION_KEYWORDS :: "pystr list" where
  "SECTION_KEYWORDS = map lit
     [''prerequisites'', ''prerequisite'', ''procedure'', ''results'', ''result'',
      ''context'', ''steps'', ''next steps'', ''related information'']"

definition PREREQUISITE_PHRASES :: "pystr list" where
  "PREREQUISITE_PHRASES = map lit
     [''you've'', ''you're'', ''you need'', ''you must'', ''you have'', ''you should'']"

text \<open>The characters of \<^verbatim>\<open>lstrip('\<dots>')\<close> in the prerequisite test: U+2022, U+00B7,
  \<^verbatim>\<open>-\<close>, \<^verbatim>\<open>*\<close> and the space.\<close>

definition is_lstrip_char :: "nat \<Rightarrow> bool" where
  "is_lstrip_char c \<longleftrightarrow> c \<in> set [8226, 183, 45, 42, 32]"

definition classify_line :: "pystr \<Rightarrow> category" where
  "classify_line line =
     (let stripped = strip line
      in if stripped = [] \<or> is_noise stripped then noise
         else let norm = normalize_line stripped
              in if norm = [] then noise
                 else let clean = strip (rstrip_chars (\<lambda>c. c = 58) norm)
                      in if clean \<in> set SECTION_KEYWORDS then section_header
                         else if startswith norm (lit ''steps in'') \<or>
                                 startswith norm (lit ''steps for'') then section_header
                         else let first_word = (case split_ws norm of [] \<Rightarrow> [] | w # ws \<Rightarrow> w)
                              in if first_word \<in> set ACTION_VERBS then instruction
                                 else if list_ex (startswith (lower (lstrip_chars is_lstrip_char stripped)))
                                           PREREQUISITE_PHRASES then prerequisite
                                 else if startswith norm (lit ''note:'') \<or>
                                         startswith norm (lit ''note '') \<or>
                                         norm = lit ''note'' then note_block
                                 else content)"

fun severity_for :: "category \<Rightarrow> severity" where
  "severity_for instruction = HIGH"
| "severity_for section_header = HIGH"
| "severity_for prerequisite = HIGH"
| "severity_for note_block = MEDIUM"
| "severity_for content = MEDIUM"
| "severity_for noise = LOW"


section \<open>Structural validation\<close>

datatype warning_type = NUMBERING_GAP | MISSING_SECTION | MISSING_PREREQUISITE

record StructuralWarning =
  warning_type :: warning_type
  warning_severity :: severity
  warning_message :: pystr

definition gap_warning :: "nat \<Rightarrow> nat \<Rightarrow> nat \<Rightarrow> StructuralWarning" where
  "gap_warning prev_num num missing =
     \<lparr>warning_type = NUMBERING_GAP, warning_severity = HIGH,
      warning_message = lit ''Step '' @ str_of_nat missing @ lit '' is missing '' @
        lit ''(numbering jumps from '' @ str_of_nat prev_num @ lit '' to '' @
        str_of_nat num @ lit '')''\<rparr>"

text \<open>
  One turn of the loop of \<^verbatim>\<open>_detect_numbering_gaps\<close>; the state is the list of
  warnings and \<^verbatim>\<open>prev_num\<close>.
\<close>

definition numbering_step ::
  "StructuralWarning list \<times> nat option \<Rightarrow> pystr \<Rightarrow> StructuralWarning list \<times> nat option" where
  "numbering_step st line =
     (case st of (warnings, prev_num) \<Rightarrow>
        (case STEP_NUMBER_RE_match (strip line) of
           None \<Rightarrow> (warnings, prev_num)
         | Some (ds, rest) \<Rightarrow>
             let num = int_of_digits ds
             in if num = 1 then (warnings, Some 1)
                else (case prev_num of
                        None \<Rightarrow> (warnings, Some num)
                      | Some p \<Rightarrow>
                          if num > p + 1
                          then (warnings @ map (gap_warning p num) [p + 1 ..< num], Some num)
                          else (warnings, Some num))))"

definition scan_numbering :: "pystr list \<Rightarrow> StructuralWarning list \<times> nat option" where
  "scan_numbering lines = foldl numbering_step ([], None) lines"

definition detect_numbering_gaps :: "pystr \<Rightarrow> StructuralWarning list" where
  "detect_numbering_gaps text = fst (scan_numbering (splitlines text))"

definition section_warning :: "pystr \<Rightarrow> StructuralWarning" where
  "section_warning label =
     \<lparr>warning_type = MISSING_SECTION, warning_severity = HIGH,
      warning_message = label @ lit '' may be missing from the document''\<rparr>"

definition detect_missing_sections :: "pystr \<Rightarrow> StructuralWarning list" where
  "detect_missing_sections text =
     (let norm = lower text;
          has_procedures =
            list_ex (contains norm) [lit ''choose '', lit ''select '', lit ''navigate '']
      in if \<not> has_procedures then []
         else let expected = [(lit ''prerequisites'', lit ''Prerequisites section''),
                              (lit ''procedure'', lit ''Procedure section'')]
              in foldl (\<lambda>warnings (keyword, label).
                          if \<not> contains norm keyword then warnings @ [section_warning label]
                          else warnings)
                   [] expected)"

text \<open>
  \<^verbatim>\<open>_detect_missing_prerequisites\<close> builds two sets of normalized lines and iterates
  over their difference. Python iterates over a set of strings in the order of its hash
  table, which depends on the hashes of the strings and so on the hash seed of the
  process. The model takes that order as the parameter \<open>set_order\<close>: any function that
  lists the elements of a finite set, each once, may be the order of a run.
\<close>

definition iteration_order :: "(pystr set \<Rightarrow> pystr list) \<Rightarrow> bool" where
  "iteration_order set_order \<longleftrightarrow>
     (\<forall>S. finite S \<longrightarrow> set (set_order S) = S \<and> distinct (set_order S))"

definition prereq_lines :: "pystr \<Rightarrow> pystr set" where
  "prereq_lines text =
     foldl (\<lambda>out line. if classify_line line = prerequisite
                        then insert (normalize_line line) out else out)
       {} (splitlines text)"

definition prerequisite_warning :: "pystr \<Rightarrow> StructuralWarning" where
  "prerequisite_warning missing =
     \<lparr>warning_type = MISSING_PREREQUISITE, warning_severity = HIGH,
      warning_message = lit ''Prerequisite removed: '' @ [34] @ missing @ [34]\<rparr>"

definition detect_missing_prerequisites ::
  "(pystr set \<Rightarrow> pystr list) \<Rightarrow> pystr \<Rightarrow> pystr \<Rightarrow> StructuralWarning list" where
  "detect_missing_prerequisites set_order old_text new_text =
     (let old_prereqs = prereq_lines old_text;
          new_prereqs = prereq_lines new_text
      in foldl (\<lambda>warnings missing. warnings @ [prerequisite_warning missing])
           [] (set_order (old_prereqs - new_prereqs)))"

definition validate_structure ::
  "(pystr set \<Rightarrow> pystr list) \<Rightarrow> pystr \<Rightarrow> pystr \<Rightarrow> StructuralWarning list" where
  "validate_structure set_order old_text new_text =
     (let old_warnings = detect_numbering_gaps old_text @ detect_missing_sections old_text;
          new_warnings = detect_numbering_gaps new_text @ detect_missing_sections new_text;
          old_msgs = set (map warning_message old_warnings);
          new_only = filter (\<lambda>w. warning_message w \<notin> old_msgs) new_warnings
      in new_only @ detect_missing_prerequisites set_order old_text new_text)"

section \<open>Main comparison engine\<close>

record ChangeEntry =
  entry_text :: pystr
  entry_severity :: severity
  entry_category :: category

record ComparisonResult =
  has_changes :: bool
  added :: "ChangeEntry list"
  removed :: "ChangeEntry list"
  structural_warnings :: "StructuralWarning list"
  max_severity :: "severity option"

fun SEVERITY_ORDER :: "severity \<Rightarrow> int" where
  "SEVERITY_ORDER HIGH = 3"
| "SEVERITY_ORDER MEDIUM = 2"
| "SEVERITY_ORDER LOW = 1"

text \<open>\<^verbatim>\<open>d.setdefault(k, v)\<close> and \<^verbatim>\<open>d.get(k, default)\<close> on a dictionary, and
  \<^verbatim>\<open>Counter(xs)\<close>.\<close>

definition setdefault :: "('k \<rightharpoonup> 'v) \<Rightarrow> 'k \<Rightarrow> 'v \<Rightarrow> ('k \<rightharpoonup> 'v)" where
  "setdefault d k v = (case d k of None \<Rightarrow> d(k \<mapsto> v) | Some u \<Rightarrow> d)"

definition get :: "('k \<rightharpoonup> 'v) \<Rightarrow> 'k \<Rightarrow> 'v \<Rightarrow> 'v" where
  "get d k dflt = (case d k of None \<Rightarrow> dflt | Some v \<Rightarrow> v)"

definition Counter :: "'k list \<Rightarrow> ('k \<rightharpoonup> nat)" where
  "Counter xs = (\<lambda>k. if k \<in> set xs then Some (count_list xs k) else None)"

text \<open>\<^verbatim>\<open>max(seq, key=key)\<close> on a sequence that starts with \<open>best\<close>: the first
  element whose key is the largest.\<close>

fun max_by_key :: "('a \<Rightarrow> int) \<Rightarrow> 'a \<Rightarrow> 'a list \<Rightarrow> 'a" where
  "max_by_key key best [] = best"
| "max_by_key key best (x # xs) = max_by_key key (if key x > key best then x else best) xs"

text \<open>
  The first two loops of \<^verbatim>\<open>compare\<close>: the dictionary from a normalized line to the
  first raw line (stripped) that has this normal form, and the list of the normalized
  lines, duplicates kept.
\<close>

definition norm_step ::
  "(pystr \<rightharpoonup> pystr) \<times> pystr list \<Rightarrow> pystr \<Rightarrow> (pystr \<rightharpoonup> pystr) \<times> pystr list" where
  "norm_step st line =
     (case st of (norm_map, norm_list) \<Rightarrow>
        if is_noise line then (norm_map, norm_list)
        else let n = normalize_line line
             in if n \<noteq> [] then (setdefault norm_map n (strip line), norm_list @ [n])
                else (norm_map, norm_list))"

definition build_norm :: "pystr \<Rightarrow> (pystr \<rightharpoonup> pystr) \<times> pystr list" where
  "build_norm text = foldl norm_step (Map.empty, []) (splitlines text)"

definition change_entry :: "pystr \<Rightarrow> category \<Rightarrow> ChangeEntry" where
  "change_entry original cat =
     \<lparr>entry_text = original, entry_severity = severity_for cat, entry_category = cat\<rparr>"

text \<open>One turn of the loop over \<^verbatim>\<open>sorted(all_norms)\<close>; the state is the pair of
  \<^verbatim>\<open>result['added']\<close> and \<^verbatim>\<open>result['removed']\<close>.\<close>

definition diff_step ::
  "(pystr \<rightharpoonup> pystr) \<times> pystr list \<Rightarrow> (pystr \<rightharpoonup> pystr) \<times> pystr list \<Rightarrow>
   ChangeEntry list \<times> ChangeEntry list \<Rightarrow> pystr \<Rightarrow> ChangeEntry list \<times> ChangeEntry list" where
  "diff_step old new st norm =
     (case st of (adds, rems) \<Rightarrow>
        let old_c = get (Counter (snd old)) norm 0;
            new_c = get (Counter (snd new)) norm 0
        in if old_c > new_c then
             (let original = get (fst old) norm norm;
                  cat = classify_line original
              in if cat = noise then (adds, rems)
                 else (adds, rems @ replicate (old_c - new_c) (change_entry original cat)))
           else if new_c > old_c then
             (let original = get (fst new) norm norm;
                  cat = classify_line original
              in if cat = noise then (adds, rems)
                 else (adds @ replicate (new_c - old_c) (change_entry original cat), rems))
           else (adds, rems))"

text \<open>The entries that one turn of the loop appends for the key \<open>norm\<close>.\<close>

definition added_for ::
  "(pystr \<rightharpoonup> pystr) \<times> pystr list \<Rightarrow> (pystr \<rightharpoonup> pystr) \<times> pystr list \<Rightarrow>
   pystr \<Rightarrow> ChangeEntry list" where
  "added_for old new norm = fst (diff_step old new ([], []) norm)"

definition removed_for ::
  "(pystr \<rightharpoonup> pystr) \<times> pystr list \<Rightarrow> (pystr \<rightharpoonup> pystr) \<times> pystr list \<Rightarrow>
   pystr \<Rightarrow> ChangeEntry list" where
  "removed_for old new norm = snd (diff_step old new ([], []) norm)"

text \<open>
  The section ``semantic additions and removals'' of \<^verbatim>\<open>compare\<close>: the two lists
  before they are sorted. Python's \<^verbatim>\<open>sorted\<close> of a set of strings is the list of
  its elements in ascending order.
\<close>

definition semantic_diff :: "pystr \<Rightarrow> pystr \<Rightarrow> ChangeEntry list \<times> ChangeEntry list" where
  "semantic_diff old_text new_text =
     (let old = build_norm old_text;
          new = build_norm new_text;
          all_norms = set (snd old) \<union> set (snd new)
      in foldl (diff_step old new) ([], []) (sorted_list_of_set all_norms))"

text \<open>The sort key \<^verbatim>\<open>_skey\<close>, on a change entry and on a warning.\<close>

definition skey :: "ChangeEntry \<Rightarrow> int" where
  "skey item = SEVERITY_ORDER (entry_severity item) * - 1"

definition skey_warning :: "StructuralWarning \<Rightarrow> int" where
  "skey_warning item = SEVERITY_ORDER (warning_severity item) * - 1"

text \<open>
  \<^verbatim>\<open>compare\<close>. Its first argument is the iteration order of the set in
  \<^verbatim>\<open>_detect_missing_prerequisites\<close>; \<^verbatim>\<open>list.sort\<close> is stable, as
  \<open>sort_key\<close> is.
\<close>

definition compare :: "(pystr set \<Rightarrow> pystr list) \<Rightarrow> pystr \<Rightarrow> pystr \<Rightarrow> ComparisonResult" where
  "compare set_order old_text new_text =
     (let (adds, rems) = semantic_diff old_text new_text;
          warnings = validate_structure set_order old_text new_text;
          all_sevs = map entry_severity adds @ map entry_severity rems @
                     map warning_severity warnings
      in \<lparr>has_changes = (if adds \<noteq> [] \<or> rems \<noteq> [] then True else False),
          added = sort_key skey adds,
          removed = sort_key skey rems,
          structural_warnings = sort_key skey_warning warnings,
          max_severity = (case all_sevs of [] \<Rightarrow> None
                          | s # ss \<Rightarrow> Some (max_by_key SEVERITY_ORDER s ss))\<rparr>)"


section \<open>The specification's words\<close>





section \<open>Auxiliary notions\<close>


section \<open>Properties of the comparison engine\<close>

subsection \<open>The fields of the result\<close>


lemma compare_has_changes:
  "has_changes (compare so old new) \<longleftrightarrow>
     fst (semantic_diff old new) \<noteq> [] \<or> snd (semantic_diff old new) \<noteq> []"
  by (simp add: compare_def Let_def split: prod.splits)

lemma compare_added: "added (compare so old new) = sort_key skey (fst (semantic_diff old new))"
  by (simp add: compare_def Let_def split: prod.splits)

lemma compare_removed: "removed (compare so old new) = sort_key skey (snd (semantic_diff old new))"
  by (simp add: compare_def Let_def split: prod.splits)

lemma compare_structural_warnings:
  "structural_warnings (compare so old new) = sort_key skey_warning (validate_structure so old new)"
  by (simp add: compare_def Let_def split: prod.splits)

lemma compare_max_severity:
  "max_severity (compare so old new) =
     (case map entry_severity (fst (semantic_diff old new)) @
           map entry_severity (snd (semantic_diff old new)) @
           map warning_severity (validate_structure so old new) of
        [] \<Rightarrow> None
      | s # ss \<Rightarrow> Some (max_by_key SEVERITY_ORDER s ss))"
  by (simp add: compare_def Let_def split: prod.splits)

lemma sort_key_Nil_iff: "sort_key f xs = [] \<longleftrightarrow> xs = []"
  by (metis length_0_conv length_sort)

subsection \<open>Maximum and sorting\<close>

lemma max_by_key_mem: "max_by_key f b xs \<in> set (b # xs)"
  by (induction xs arbitrary: b) auto

lemma max_by_key_ge_start: "f b \<le> f (max_by_key f b xs)"
proof (induction xs arbitrary: b)
  case Nil
  show ?case by simp
next
  case (Cons x xs)
  have "f b \<le> f (if f b < f x then x else b)" by simp
  also have "\<dots> \<le> f (max_by_key f (if f b < f x then x else b) xs)" by (rule Cons.IH)
  finally show ?case by simp
qed

lemma max_by_key_ge: "y \<in> set (b # xs) \<Longrightarrow> f y \<le> f (max_by_key f b xs)"
proof (induction xs arbitrary: b)
  case Nil
  then show ?case by simp
next
  case (Cons x xs)
  let ?b = "if f b < f x then x else b"
  from Cons.prems consider "y = b" | "y = x" | "y \<in> set xs" by auto
  then show ?case
  proof cases
    case 1
    then show ?thesis using max_by_key_ge_start [of f b "x # xs"] by simp
  next
    case 2
    have "f x \<le> f ?b" by simp
    also have "\<dots> \<le> f (max_by_key f ?b xs)" by (rule max_by_key_ge_start)
    finally show ?thesis using 2 by simp
  next
    case 3
    then have "f y \<le> f (max_by_key f ?b xs)" using Cons.IH [of ?b] by simp
    then show ?thesis by simp
  qed
qed

lemma SEVERITY_ORDER_le_3: "SEVERITY_ORDER s \<le> 3"
  by (cases s) simp_all

lemma SEVERITY_ORDER_3_iff: "3 \<le> SEVERITY_ORDER s \<longleftrightarrow> s = HIGH"
  by (cases s) simp_all

lemma high_first_sorted:
  assumes srt: "sorted (map (\<lambda>x. SEVERITY_ORDER (sev x) * - 1) ys)"
    and i: "i < length ys" and j: "j < length ys"
    and hi: "sev (ys ! i) = HIGH" and lo: "sev (ys ! j) \<noteq> HIGH"
  shows "i < j"
proof (rule ccontr)
  assume "\<not> i < j"
  with hi lo have ji: "j < i" by (cases "i = j") auto
  let ?k = "map (\<lambda>x. SEVERITY_ORDER (sev x) * - 1) ys"
  from srt ji i have "?k ! j \<le> ?k ! i"
    by (intro sorted_nth_mono) simp_all
  with i j hi have "3 \<le> SEVERITY_ORDER (sev (ys ! j))" by simp
  with lo show False by (simp add: SEVERITY_ORDER_3_iff)
qed

lemma high_first_entries:
  assumes "i < length xs" "j < length xs"
    "entry_severity (sort_key skey xs ! i) = HIGH" "entry_severity (sort_key skey xs ! j) \<noteq> HIGH"
  shows "i < j"
proof -
  have "sorted (map skey (sort_key skey xs))" by (rule sorted_sort_key)
  then have "sorted (map (\<lambda>x. SEVERITY_ORDER (entry_severity x) * - 1) (sort_key skey xs))"
    by (simp add: skey_def [abs_def])
  from high_first_sorted [OF this] assms show ?thesis by simp
qed

lemma high_first_warnings:
  assumes "i < length xs" "j < length xs"
    "warning_severity (sort_key skey_warning xs ! i) = HIGH"
    "warning_severity (sort_key skey_warning xs ! j) \<noteq> HIGH"
  shows "i < j"
proof -
  have "sorted (map skey_warning (sort_key skey_warning xs))" by (rule sorted_sort_key)
  then have "sorted (map (\<lambda>x. SEVERITY_ORDER (warning_severity x) * - 1) (sort_key skey_warning xs))"
    by (simp add: skey_warning_def [abs_def])
  from high_first_sorted [OF this] assms show ?thesis by simp
qed

lemma max_severity_cases:
  assumes "sevs \<noteq> []"
  shows "\<exists>s\<in>set sevs. (case sevs of [] \<Rightarrow> None | s # ss \<Rightarrow> Some (max_by_key SEVERITY_ORDER s ss)) = Some s
           \<and> (\<forall>t\<in>set sevs. SEVERITY_ORDER t \<le> SEVERITY_ORDER s)"
proof (cases sevs)
  case Nil
  with assms show ?thesis by simp
next
  case (Cons b xs)
  have "max_by_key SEVERITY_ORDER b xs \<in> set (b # xs)" by (rule max_by_key_mem)
  moreover have "\<forall>t\<in>set (b # xs). SEVERITY_ORDER t \<le> SEVERITY_ORDER (max_by_key SEVERITY_ORDER b xs)"
    by (blast intro: max_by_key_ge)
  ultimately show ?thesis unfolding Cons by simp
qed

lemma set_sevs_sorted:
  "set (map entry_severity (sort_key skey a) @ map entry_severity (sort_key skey r) @
        map warning_severity (sort_key skey_warning w))
   = set (map entry_severity a @ map entry_severity r @ map warning_severity w)"
  by simp

text \<open>
  Claim C3 (severity dominance). For every pair of texts, \<^verbatim>\<open>max_severity\<close> is absent
  when \<^verbatim>\<open>added\<close>, \<^verbatim>\<open>removed\<close> and \<^verbatim>\<open>structural_warnings\<close> are all
  empty, and otherwise it is a severity that occurs in one of the three lists and that no
  severity in them exceeds under HIGH > MEDIUM > LOW. In each of the three lists every
  element of severity HIGH stands before every element of lower severity.
\<close>

theorem severity_dominance:
  "let r = compare so old new;
       sevs = map entry_severity (added r) @ map entry_severity (removed r) @
              map warning_severity (structural_warnings r)
   in (sevs = [] \<longrightarrow> max_severity r = None) \<and>
      (sevs \<noteq> [] \<longrightarrow>
         (\<exists>s\<in>set sevs. max_severity r = Some s \<and>
            (\<forall>t\<in>set sevs. SEVERITY_ORDER t \<le> SEVERITY_ORDER s))) \<and>
      (\<forall>i j. i < length (added r) \<and> j < length (added r) \<and>
         entry_severity (added r ! i) = HIGH \<and> entry_severity (added r ! j) \<noteq> HIGH \<longrightarrow> i < j) \<and>
      (\<forall>i j. i < length (removed r) \<and> j < length (removed r) \<and>
         entry_severity (removed r ! i) = HIGH \<and> entry_severity (removed r ! j) \<noteq> HIGH \<longrightarrow> i < j) \<and>
      (\<forall>i j. i < length (structural_warnings r) \<and> j < length (structural_warnings r) \<and>
         warning_severity (structural_warnings r ! i) = HIGH \<and>
         warning_severity (structural_warnings r ! j) \<noteq> HIGH \<longrightarrow> i < j)"
proof -
  define a where "a = fst (semantic_diff old new)"
  define d where "d = snd (semantic_diff old new)"
  define w where "w = validate_structure so old new"
  define pre where "pre = map entry_severity a @ map entry_severity d @ map warning_severity w"
  define post where "post = map entry_severity (sort_key skey a) @
    map entry_severity (sort_key skey d) @ map warning_severity (sort_key skey_warning w)"
  have set_eq: "set post = set pre" unfolding post_def pre_def by (rule set_sevs_sorted)
  have nil_eq: "post = [] \<longleftrightarrow> pre = []"
    unfolding post_def pre_def by (simp add: sort_key_Nil_iff)
  have mx: "max_severity (compare so old new) =
      (case pre of [] \<Rightarrow> None | s # ss \<Rightarrow> Some (max_by_key SEVERITY_ORDER s ss))"
    unfolding pre_def a_def d_def w_def by (rule compare_max_severity)
  have p1: "post = [] \<longrightarrow> max_severity (compare so old new) = None"
    using nil_eq mx by simp
  have p2: "post \<noteq> [] \<longrightarrow> (\<exists>s\<in>set post. max_severity (compare so old new) = Some s \<and>
            (\<forall>t\<in>set post. SEVERITY_ORDER t \<le> SEVERITY_ORDER s))"
    using max_severity_cases [of pre] nil_eq unfolding mx set_eq by blast
  have p3: "\<forall>i j. i < length (sort_key skey a) \<and> j < length (sort_key skey a) \<and>
         entry_severity (sort_key skey a ! i) = HIGH \<and> entry_severity (sort_key skey a ! j) \<noteq> HIGH \<longrightarrow> i < j"
    using high_first_entries [of _ a] by simp
  have p4: "\<forall>i j. i < length (sort_key skey d) \<and> j < length (sort_key skey d) \<and>
         entry_severity (sort_key skey d ! i) = HIGH \<and> entry_severity (sort_key skey d ! j) \<noteq> HIGH \<longrightarrow> i < j"
    using high_first_entries [of _ d] by simp
  have p5: "\<forall>i j. i < length (sort_key skey_warning w) \<and> j < length (sort_key skey_warning w) \<and>
         warning_severity (sort_key skey_warning w ! i) = HIGH \<and>
         warning_severity (sort_key skey_warning w ! j) \<noteq> HIGH \<longrightarrow> i < j"
    using high_first_warnings [of _ w] by simp
  from p1 p2 p3 p4 p5 show ?thesis
    unfolding Let_def compare_added compare_removed compare_structural_warnings
      a_def [symmetric] d_def [symmetric] w_def [symmetric] post_def [symmetric]
    by blast
qed

theorem severity_dominance_witness:
  "max_severity (compare sorted_list_of_set
      (join_lines [lit ''A plain sentence.'', lit ''Choose Save.'']) (lit ''Note: be careful'')) = Some HIGH \<and>
   map entry_severity (removed (compare sorted_list_of_set
      (join_lines [lit ''A plain sentence.'', lit ''Choose Save.'']) (lit ''Note: be careful''))) = [HIGH, MEDIUM] \<and>
   map entry_category (removed (compare sorted_list_of_set
      (join_lines [lit ''A plain sentence.'', lit ''Choose Save.'']) (lit ''Note: be careful''))) = [instruction, content] \<and>
   map entry_category (added (compare sorted_list_of_set
      (join_lines [lit ''A plain sentence.'', lit ''Choose Save.'']) (lit ''Note: be careful''))) = [note_block]"
proof -
  define r where "r = compare sorted_list_of_set
      (join_lines [lit ''A plain sentence.'', lit ''Choose Save.'']) (lit ''Note: be careful'')"
  have e1: "map entry_severity (removed r) = [HIGH, MEDIUM]" unfolding r_def by code_simp
  have e2: "map entry_severity (added r) = [MEDIUM]" unfolding r_def by code_simp
  have e3: "map warning_severity (structural_warnings r) = []" unfolding r_def by code_simp
  have e4: "map entry_category (removed r) = [instruction, content]" unfolding r_def by code_simp
  have e5: "map entry_category (added r) = [note_block]" unfolding r_def by code_simp
  from severity_dominance [of sorted_list_of_set
      "join_lines [lit ''A plain sentence.'', lit ''Choose Save.'']" "lit ''Note: be careful''"]
  have "\<exists>s\<in>set [MEDIUM, HIGH, MEDIUM]. max_severity r = Some s \<and>
      (\<forall>t\<in>set [MEDIUM, HIGH, MEDIUM]. SEVERITY_ORDER t \<le> SEVERITY_ORDER s)"
    unfolding Let_def r_def [symmetric] e1 e2 e3 by simp
  then have "max_severity r = Some HIGH" by auto
  with e1 e4 e5 show ?thesis unfolding r_def by simp
qed

subsection \<open>The severity of warnings\<close>

lemma foldl_append_map: "foldl (\<lambda>acc x. acc @ [f x]) acc xs = acc @ map f xs"
  by (induction xs arbitrary: acc) simp_all

lemma detect_missing_prerequisites_map:
  "detect_missing_prerequisites so old new =
     map prerequisite_warning (so (prereq_lines old - prereq_lines new))"
  by (simp add: detect_missing_prerequisites_def Let_def foldl_append_map)

lemma numbering_step_high:
  assumes "\<forall>w\<in>set (fst st). warning_type w = NUMBERING_GAP \<and> warning_severity w = HIGH"
  shows "\<forall>w\<in>set (fst (numbering_step st line)). warning_type w = NUMBERING_GAP \<and> warning_severity w = HIGH"
  using assms
  by (cases st) (auto simp: numbering_step_def Let_def gap_warning_def split: option.splits prod.splits)

lemma foldl_numbering_step_high:
  "\<forall>w\<in>set (fst st). warning_type w = NUMBERING_GAP \<and> warning_severity w = HIGH \<Longrightarrow>
   \<forall>w\<in>set (fst (foldl numbering_step st ls)). warning_type w = NUMBERING_GAP \<and> warning_severity w = HIGH"
proof (induction ls arbitrary: st)
  case Nil
  then show ?case by simp
next
  case (Cons l ls)
  from numbering_step_high [OF Cons.prems] have
    "\<forall>w\<in>set (fst (numbering_step st l)). warning_type w = NUMBERING_GAP \<and> warning_severity w = HIGH" .
  from Cons.IH [OF this] show ?case by simp
qed

lemma detect_numbering_gaps_high:
  "w \<in> set (detect_numbering_gaps text) \<Longrightarrow> warning_type w = NUMBERING_GAP \<and> warning_severity w = HIGH"
  using foldl_numbering_step_high [of "([], None)" "splitlines text"]
  by (simp add: detect_numbering_gaps_def scan_numbering_def)

lemma detect_missing_sections_high:
  "w \<in> set (detect_missing_sections text) \<Longrightarrow> warning_type w = MISSING_SECTION \<and> warning_severity w = HIGH"
  by (auto simp: detect_missing_sections_def Let_def section_warning_def split: if_splits)

lemma detect_missing_prerequisites_high:
  "w \<in> set (detect_missing_prerequisites so old new) \<Longrightarrow>
     warning_type w = MISSING_PREREQUISITE \<and> warning_severity w = HIGH"
  by (auto simp: detect_missing_prerequisites_map prerequisite_warning_def)

lemma validate_structure_high:
  "w \<in> set (validate_structure so old new) \<Longrightarrow> warning_severity w = HIGH"
  by (auto simp: validate_structure_def Let_def
      dest: detect_numbering_gaps_high detect_missing_sections_high detect_missing_prerequisites_high)

lemma sort_all_high: "\<forall>w\<in>set ws. warning_severity w = HIGH \<Longrightarrow> sort_key skey_warning ws = ws"
proof (rule sort_key_id_if_sorted)
  assume "\<forall>w\<in>set ws. warning_severity w = HIGH"
  then have "map skey_warning ws = replicate (length ws) (- 3)"
    by (induction ws) (simp_all add: skey_warning_def)
  then show "sorted (map skey_warning ws)" by (simp add: sorted_replicate)
qed

lemma compare_structural_warnings_eq:
  "structural_warnings (compare so old new) = validate_structure so old new"
  unfolding compare_structural_warnings
  by (rule sort_all_high) (blast dest: validate_structure_high)

text \<open>
  Claim C10. Every warning that one of the three detectors (numbering gap, missing
  section, missing prerequisite) produces has severity HIGH; so whenever the
  \<^verbatim>\<open>structural_warnings\<close> of a result are not empty, its \<^verbatim>\<open>max_severity\<close> is
  HIGH.
\<close>

theorem structural_warnings_high:
  "(\<forall>w\<in>set (detect_numbering_gaps text). warning_severity w = HIGH) \<and>
   (\<forall>w\<in>set (detect_missing_sections text). warning_severity w = HIGH) \<and>
   (\<forall>w\<in>set (detect_missing_prerequisites so old new). warning_severity w = HIGH) \<and>
   (structural_warnings (compare so old new) \<noteq> [] \<longrightarrow>
      max_severity (compare so old new) = Some HIGH)"
proof -
  have "max_severity (compare so old new) = Some HIGH"
    if ne: "structural_warnings (compare so old new) \<noteq> []"
  proof -
    define pre where "pre = map entry_severity (fst (semantic_diff old new)) @
      map entry_severity (snd (semantic_diff old new)) @
      map warning_severity (validate_structure so old new)"
    from ne obtain w where w: "w \<in> set (validate_structure so old new)"
      unfolding compare_structural_warnings_eq by (cases "validate_structure so old new") auto
    then have hi: "HIGH \<in> set pre"
      unfolding pre_def using validate_structure_high [OF w] by force
    then have "pre \<noteq> []" by auto
    from max_severity_cases [OF this] obtain s where
      s: "(case pre of [] \<Rightarrow> None | s # ss \<Rightarrow> Some (max_by_key SEVERITY_ORDER s ss)) = Some s"
      and top: "\<forall>t\<in>set pre. SEVERITY_ORDER t \<le> SEVERITY_ORDER s" by blast
    from top hi have "3 \<le> SEVERITY_ORDER s" by force
    then have "s = HIGH" by (simp add: SEVERITY_ORDER_3_iff)
    with s show ?thesis unfolding compare_max_severity pre_def by simp
  qed
  then show ?thesis
    by (blast dest: detect_numbering_gaps_high detect_missing_sections_high
        detect_missing_prerequisites_high)
qed

theorem structural_warnings_high_witness:
  "max_severity (compare sorted_list_of_set
      (join_lines [lit ''1. a'', lit ''2. b'', lit ''3. c''])
      (join_lines [lit ''1. a'', lit ''2. b'', lit ''4. c''])) = Some HIGH \<and>
   added (compare sorted_list_of_set
      (join_lines [lit ''1. a'', lit ''2. b'', lit ''3. c''])
      (join_lines [lit ''1. a'', lit ''2. b'', lit ''4. c''])) = [] \<and>
   removed (compare sorted_list_of_set
      (join_lines [lit ''1. a'', lit ''2. b'', lit ''3. c''])
      (join_lines [lit ''1. a'', lit ''2. b'', lit ''4. c''])) = []"
proof -
  define r where "r = compare sorted_list_of_set
      (join_lines [lit ''1. a'', lit ''2. b'', lit ''3. c''])
      (join_lines [lit ''1. a'', lit ''2. b'', lit ''4. c''])"
  have "length (structural_warnings r) = 1" unfolding r_def by code_simp
  then have w: "structural_warnings r \<noteq> []" by auto
  have a: "added r = []" unfolding r_def by code_simp
  have d: "removed r = []" unfolding r_def by code_simp
  from structural_warnings_high [of "[]" sorted_list_of_set
      "join_lines [lit ''1. a'', lit ''2. b'', lit ''3. c'']"
      "join_lines [lit ''1. a'', lit ''2. b'', lit ''4. c'']"] w
  have "max_severity r = Some HIGH" unfolding r_def by blast
  with a d show ?thesis unfolding r_def by simp
qed

subsection \<open>Suppression\<close>

text \<open>
  Claim C7 (suppression policy). The numbering-gap and missing-section detectors run on
  the old and on the new text. The \<^verbatim>\<open>structural_warnings\<close> of the result are the
  warnings of the new text whose message is not the message of a warning of the old text,
  in their order, followed by the missing-prerequisite warnings: a warning of the new text
  is in the result if and only if its message is not among the old text's messages, and
  every missing-prerequisite warning is in the result.
\<close>

theorem suppression_policy:
  "let old_warnings = detect_numbering_gaps old @ detect_missing_sections old;
       new_warnings = detect_numbering_gaps new @ detect_missing_sections new;
       result = structural_warnings (compare so old new)
   in result = filter (\<lambda>w. warning_message w \<notin> warning_message ` set old_warnings) new_warnings @
               detect_missing_prerequisites so old new \<and>
      (\<forall>w\<in>set new_warnings.
         w \<in> set result \<longleftrightarrow> warning_message w \<notin> warning_message ` set old_warnings) \<and>
      (\<forall>w\<in>set (detect_missing_prerequisites so old new). w \<in> set result)"
proof -
  have "w \<notin> set (detect_missing_prerequisites so old new)"
    if "w \<in> set (detect_numbering_gaps new @ detect_missing_sections new)" for w
    using that
    by (auto dest!: detect_numbering_gaps_high detect_missing_sections_high
        detect_missing_prerequisites_high)
  then show ?thesis
    unfolding Let_def compare_structural_warnings_eq
    by (auto simp: validate_structure_def Let_def)
qed

theorem suppression_policy_witness:
  "structural_warnings (compare sorted_list_of_set
      (join_lines [lit ''1. a'', lit ''3. b'', lit ''You must have admin access.''])
      (join_lines [lit ''1. a'', lit ''3. b'', lit ''5. c'']))
     = [gap_warning 3 5 4, prerequisite_warning (lit ''you must have admin access.'')] \<and>
   detect_numbering_gaps (join_lines [lit ''1. a'', lit ''3. b'', lit ''5. c''])
     = [gap_warning 1 3 2, gap_warning 3 5 4]"
proof -
  have rhs: "filter (\<lambda>w. warning_message w \<notin> warning_message `
        set (detect_numbering_gaps (join_lines [lit ''1. a'', lit ''3. b'', lit ''You must have admin access.'']) @
             detect_missing_sections (join_lines [lit ''1. a'', lit ''3. b'', lit ''You must have admin access.''])))
      (detect_numbering_gaps (join_lines [lit ''1. a'', lit ''3. b'', lit ''5. c'']) @
       detect_missing_sections (join_lines [lit ''1. a'', lit ''3. b'', lit ''5. c''])) @
      detect_missing_prerequisites sorted_list_of_set
        (join_lines [lit ''1. a'', lit ''3. b'', lit ''You must have admin access.''])
        (join_lines [lit ''1. a'', lit ''3. b'', lit ''5. c''])
      = [gap_warning 3 5 4, prerequisite_warning (lit ''you must have admin access.'')]"
    by code_simp
  have g: "detect_numbering_gaps (join_lines [lit ''1. a'', lit ''3. b'', lit ''5. c''])
     = [gap_warning 1 3 2, gap_warning 3 5 4]" by code_simp
  from suppression_policy [where so = sorted_list_of_set
      and old = "join_lines [lit ''1. a'', lit ''3. b'', lit ''You must have admin access.'']"
      and new = "join_lines [lit ''1. a'', lit ''3. b'', lit ''5. c'']"]
  have "structural_warnings (compare sorted_list_of_set
      (join_lines [lit ''1. a'', lit ''3. b'', lit ''You must have admin access.''])
      (join_lines [lit ''1. a'', lit ''3. b'', lit ''5. c'']))
     = [gap_warning 3 5 4, prerequisite_warning (lit ''you must have admin access.'')]"
    unfolding Let_def rhs by blast
  with g show ?thesis by simp
qed

subsection \<open>Reflexivity\<close>





lemma iteration_order_rev_sorted: "iteration_order (\<lambda>S. rev (sorted_list_of_set S))"
  by (simp add: iteration_order_def)




subsection \<open>Stripping\<close>


lemma strip_Nil: "strip [] = []"
  by (simp add: strip_def lstrip_chars_def rstrip_chars_def)

lemma rstrip_lstrip_fixed:
  "dropWhile P (rev (dropWhile P (rev (dropWhile P s)))) = rev (dropWhile P (rev (dropWhile P s)))"
proof -
  define t where "t = dropWhile P s"
  define u where "u = rev (dropWhile P (rev t))"
  have t_eq: "t = u @ rev (takeWhile P (rev t))"
    unfolding u_def by (metis rev_append rev_rev_ident takeWhile_dropWhile_id)
  have "u = [] \<or> \<not> P (hd u)"
  proof (cases "u = []")
    case False
    then have "hd u = hd t" using t_eq by (metis hd_append2)
    moreover from False t_eq have "t \<noteq> []" by auto
    then have "\<not> P (hd t)" unfolding t_def by (rule hd_dropWhile)
    ultimately show ?thesis by simp
  qed simp
  then have "dropWhile P u = u" by (simp add: dropWhile_eq_self_iff)
  then show ?thesis unfolding u_def t_def .
qed

lemma strip_strip: "strip (strip s) = strip s"
  by (simp add: strip_def lstrip_chars_def rstrip_chars_def rstrip_lstrip_fixed)

lemma is_noise_strip: "is_noise (strip l) = is_noise l"
  by (simp add: is_noise_def strip_strip)

lemma normalize_line_strip: "normalize_line (strip l) = normalize_line l"
  by (auto simp: normalize_line_def strip_strip strip_Nil)

lemma normalize_line_Nil_if_strip_Nil: "strip l = [] \<Longrightarrow> normalize_line l = []"
  by (simp add: normalize_line_def)

lemma classify_line_noise_iff:
  "classify_line x = noise \<longleftrightarrow> is_noise x \<or> normalize_line x = []"
proof -
  have "strip x = [] \<Longrightarrow> is_noise x" by (simp add: is_noise_def)
  then show ?thesis
    by (auto simp: classify_line_def Let_def is_noise_strip normalize_line_strip)
qed


subsection \<open>The normalized lists\<close>

lemma norm_step_snd:
  "snd (norm_step st l) =
     snd st @ (if \<not> is_noise l \<and> normalize_line l \<noteq> [] then [normalize_line l] else [])"
  by (cases st) (simp add: norm_step_def Let_def)

lemma norm_step_fst:
  "fst (norm_step st l) k =
     (case fst st k of
        Some v \<Rightarrow> Some v
      | None \<Rightarrow> if \<not> is_noise l \<and> normalize_line l \<noteq> [] \<and> normalize_line l = k
                then Some (strip l) else None)"
  by (cases st) (auto simp: norm_step_def Let_def setdefault_def split: option.splits)

lemma foldl_norm_step_snd:
  "snd (foldl norm_step st ls) =
     snd st @ map normalize_line (filter (\<lambda>l. \<not> is_noise l \<and> normalize_line l \<noteq> []) ls)"
proof (induction ls arbitrary: st)
  case Nil
  show ?case by simp
next
  case (Cons l ls)
  have "snd (foldl norm_step st (l # ls)) = snd (foldl norm_step (norm_step st l) ls)"
    by simp
  also have "\<dots> = snd (norm_step st l) @
      map normalize_line (filter (\<lambda>l. \<not> is_noise l \<and> normalize_line l \<noteq> []) ls)"
    by (rule Cons.IH)
  finally show ?case by (simp add: norm_step_snd)
qed

lemma foldl_norm_step_fst:
  "fst (foldl norm_step st ls) k =
     (case fst st k of
        Some v \<Rightarrow> Some v
      | None \<Rightarrow>
          (case filter (\<lambda>l. \<not> is_noise l \<and> normalize_line l \<noteq> [] \<and> normalize_line l = k) ls of
             [] \<Rightarrow> None
           | l # rest \<Rightarrow> Some (strip l)))"
proof (induction ls arbitrary: st)
  case Nil
  show ?case by (simp split: option.splits)
next
  case (Cons l ls)
  have "fst (foldl norm_step st (l # ls)) k = fst (foldl norm_step (norm_step st l) ls) k"
    by simp
  also have "\<dots> = (case fst (norm_step st l) k of
        Some v \<Rightarrow> Some v
      | None \<Rightarrow>
          (case filter (\<lambda>l. \<not> is_noise l \<and> normalize_line l \<noteq> [] \<and> normalize_line l = k) ls of
             [] \<Rightarrow> None
           | l # rest \<Rightarrow> Some (strip l)))"
    by (rule Cons.IH)
  finally show ?case by (simp add: norm_step_fst split: option.splits)
qed

lemma build_norm_snd:
  "snd (build_norm text) =
     map normalize_line (filter (\<lambda>l. \<not> is_noise l \<and> normalize_line l \<noteq> []) (splitlines text))"
  by (simp add: build_norm_def foldl_norm_step_snd)

lemma build_norm_fst:
  "k \<noteq> [] \<Longrightarrow> fst (build_norm text) k =
     (case filter (\<lambda>l. \<not> is_noise l \<and> normalize_line l = k) (splitlines text) of
        [] \<Rightarrow> None
      | l # rest \<Rightarrow> Some (strip l))"
proof -
  assume k: "k \<noteq> []"
  then have "(\<lambda>l. \<not> is_noise l \<and> normalize_line l \<noteq> [] \<and> normalize_line l = k)
      = (\<lambda>l. \<not> is_noise l \<and> normalize_line l = k)" by auto
  then show ?thesis by (simp add: build_norm_def foldl_norm_step_fst)
qed

lemma count_norm_list:
  "k \<noteq> [] \<Longrightarrow>
   count_list (map normalize_line (filter (\<lambda>l. \<not> is_noise l \<and> normalize_line l \<noteq> []) ls)) k
     = length (filter (\<lambda>l. \<not> is_noise l \<and> normalize_line l = k) ls)"
  by (induction ls) auto

lemma get_Counter: "get (Counter xs) k 0 = count_list xs k"
  by (simp add: get_def Counter_def count_list_0_iff)

lemma build_norm_count:
  "k \<noteq> [] \<Longrightarrow> get (Counter (snd (build_norm text))) k 0
     = length (filter (\<lambda>l. \<not> is_noise l \<and> normalize_line l = k) (splitlines text))"
  by (simp add: get_Counter build_norm_snd count_norm_list)

lemma Nil_notin_norm_list: "[] \<notin> set (snd (build_norm text))"
  by (auto simp: build_norm_snd)

subsection \<open>The entries of one key\<close>

lemma diff_step_append:
  "diff_step old new (a, r) k = (a @ added_for old new k, r @ removed_for old new k)"
  by (simp add: diff_step_def added_for_def removed_for_def Let_def)

lemma foldl_diff_step:
  "foldl (diff_step old new) (a, r) ks =
     (a @ concat (map (added_for old new) ks), r @ concat (map (removed_for old new) ks))"
  by (induction ks arbitrary: a r) (simp_all add: diff_step_append)

lemma semantic_diff_concat:
  "semantic_diff old_text new_text =
     (let old = build_norm old_text; new = build_norm new_text;
          keys = sorted_list_of_set (set (snd old) \<union> set (snd new))
      in (concat (map (added_for old new) keys), concat (map (removed_for old new) keys)))"
  by (simp add: semantic_diff_def Let_def foldl_diff_step)

text \<open>The entry of a key: the first line of the text that is kept and has this normal form.\<close>

lemma first_line_entry:
  assumes k: "k \<noteq> []"
    and f: "filter (\<lambda>l. \<not> is_noise l \<and> normalize_line l = k) (splitlines text) = l # rest"
  shows "get (fst (build_norm text)) k k = strip l"
    and "classify_line (strip l) \<noteq> noise"
    and "normalize_line (strip l) = k"
proof -
  show "get (fst (build_norm text)) k k = strip l"
    by (simp add: get_def build_norm_fst [OF k] f)
  have "l \<in> set (filter (\<lambda>l. \<not> is_noise l \<and> normalize_line l = k) (splitlines text))"
    unfolding f by simp
  then have l: "\<not> is_noise l" "normalize_line l = k" by simp_all
  with k show "classify_line (strip l) \<noteq> noise"
    by (simp add: classify_line_noise_iff is_noise_strip normalize_line_strip)
  from l show "normalize_line (strip l) = k" by (simp add: normalize_line_strip)
qed

lemma removed_for_text:
  fixes k old_text new_text :: pystr
  assumes k: "k \<noteq> []"
  defines "ols \<equiv> filter (\<lambda>l. \<not> is_noise l \<and> normalize_line l = k) (splitlines old_text)"
  defines "nls \<equiv> filter (\<lambda>l. \<not> is_noise l \<and> normalize_line l = k) (splitlines new_text)"
  shows "removed_for (build_norm old_text) (build_norm new_text) k =
           replicate (length ols - length nls)
             (change_entry (strip (hd ols)) (classify_line (strip (hd ols))))"
proof (cases "length nls < length ols")
  case True
  then obtain l rest where f: "ols = l # rest" by (cases ols) auto
  from first_line_entry [OF k f [unfolded ols_def]] True show ?thesis
    by (simp add: removed_for_def diff_step_def Let_def build_norm_count [OF k]
        ols_def [symmetric] nls_def [symmetric] f)
next
  case False
  then show ?thesis
    by (simp add: removed_for_def diff_step_def Let_def build_norm_count [OF k]
        ols_def [symmetric] nls_def [symmetric])
qed

lemma added_for_text:
  fixes k old_text new_text :: pystr
  assumes k: "k \<noteq> []"
  defines "ols \<equiv> filter (\<lambda>l. \<not> is_noise l \<and> normalize_line l = k) (splitlines old_text)"
  defines "nls \<equiv> filter (\<lambda>l. \<not> is_noise l \<and> normalize_line l = k) (splitlines new_text)"
  shows "added_for (build_norm old_text) (build_norm new_text) k =
           replicate (length nls - length ols)
             (change_entry (strip (hd nls)) (classify_line (strip (hd nls))))"
proof (cases "length ols < length nls")
  case True
  then obtain l rest where f: "nls = l # rest" by (cases nls) auto
  from first_line_entry [OF k f [unfolded nls_def]] True show ?thesis
    by (simp add: added_for_def diff_step_def Let_def build_norm_count [OF k]
        ols_def [symmetric] nls_def [symmetric] f)
next
  case False
  then show ?thesis
    by (simp add: added_for_def diff_step_def Let_def build_norm_count [OF k]
        ols_def [symmetric] nls_def [symmetric])
qed


lemma filter_concat_key:
  assumes "distinct ks" and "\<forall>k'\<in>set ks. \<forall>e\<in>set (f k'). g e = k'"
  shows "filter (\<lambda>e. g e = k) (concat (map f ks)) = (if k \<in> set ks then f k else [])"
  using assms
proof (induction ks)
  case Nil
  show ?case by simp
next
  case (Cons k' ks)
  from Cons.prems have own: "\<forall>e\<in>set (f k'). g e = k'" by simp
  have here: "filter (\<lambda>e. g e = k) (f k') = (if k' = k then f k' else [])"
    using own by (auto simp: filter_empty_conv intro: filter_True)
  from Cons.prems have rest: "filter (\<lambda>e. g e = k) (concat (map f ks)) = (if k \<in> set ks then f k else [])"
    by (intro Cons.IH) simp_all
  from Cons.prems have "k' \<notin> set ks" by simp
  then show ?case by (auto simp: here rest)
qed

lemma removed_for_member:
  fixes k old_text new_text :: pystr
  assumes k: "k \<noteq> []"
    and e: "e \<in> set (removed_for (build_norm old_text) (build_norm new_text) k)"
  defines "ols \<equiv> filter (\<lambda>l. \<not> is_noise l \<and> normalize_line l = k) (splitlines old_text)"
  shows "ols \<noteq> [] \<and> e = change_entry (strip (hd ols)) (classify_line (strip (hd ols))) \<and>
         normalize_line (entry_text e) = k \<and> entry_category e \<noteq> noise"
proof -
  from e have ne: "ols \<noteq> []" and eq: "e = change_entry (strip (hd ols)) (classify_line (strip (hd ols)))"
    unfolding removed_for_text [OF k] ols_def by (auto split: if_splits)
  from ne obtain l rest where f: "ols = l # rest" by (cases ols) auto
  from first_line_entry [OF k f [unfolded ols_def]] eq f ne show ?thesis
    by (simp add: change_entry_def)
qed

lemma added_for_member:
  fixes k old_text new_text :: pystr
  assumes k: "k \<noteq> []"
    and e: "e \<in> set (added_for (build_norm old_text) (build_norm new_text) k)"
  defines "nls \<equiv> filter (\<lambda>l. \<not> is_noise l \<and> normalize_line l = k) (splitlines new_text)"
  shows "nls \<noteq> [] \<and> e = change_entry (strip (hd nls)) (classify_line (strip (hd nls))) \<and>
         normalize_line (entry_text e) = k \<and> entry_category e \<noteq> noise"
proof -
  from e have ne: "nls \<noteq> []" and eq: "e = change_entry (strip (hd nls)) (classify_line (strip (hd nls)))"
    unfolding added_for_text [OF k] nls_def by (auto split: if_splits)
  from ne obtain l rest where f: "nls = l # rest" by (cases nls) auto
  from first_line_entry [OF k f [unfolded nls_def]] eq f ne show ?thesis
    by (simp add: change_entry_def)
qed

lemma count_zero_outside:
  fixes k t :: pystr
  assumes "k \<noteq> []" and "k \<notin> set (snd (build_norm t))"
  shows "filter (\<lambda>l. \<not> is_noise l \<and> normalize_line l = k) (splitlines t) = []"
proof -
  from assms(2) have "count_list (snd (build_norm t)) k = 0" by (simp add: count_list_0_iff)
  with build_norm_count [OF assms(1), of t] show ?thesis by (simp add: get_Counter)
qed

lemma semantic_diff_removed_key:
  fixes k old_text new_text :: pystr
  assumes k: "k \<noteq> []"
  shows "filter (\<lambda>e. normalize_line (entry_text e) = k) (snd (semantic_diff old_text new_text))
         = removed_for (build_norm old_text) (build_norm new_text) k"
proof -
  define old where "old = build_norm old_text"
  define new where "new = build_norm new_text"
  define keys where "keys = sorted_list_of_set (set (snd old) \<union> set (snd new))"
  have keys: "set keys = set (snd old) \<union> set (snd new)" "distinct keys"
    unfolding keys_def by simp_all
  have own: "\<forall>k'\<in>set keys. \<forall>e\<in>set (removed_for old new k'). normalize_line (entry_text e) = k'"
  proof (intro ballI)
    fix k' e assume "k' \<in> set keys" and e: "e \<in> set (removed_for old new k')"
    then have "k' \<noteq> []" using keys Nil_notin_norm_list unfolding old_def new_def by auto
    from removed_for_member [OF this e [unfolded old_def new_def]]
    show "normalize_line (entry_text e) = k'" by blast
  qed
  have "filter (\<lambda>e. normalize_line (entry_text e) = k) (concat (map (removed_for old new) keys))
      = (if k \<in> set keys then removed_for old new k else [])"
    using keys(2) own by (rule filter_concat_key)
  moreover have "removed_for old new k = []" if "k \<notin> set keys"
  proof -
    from that keys have "k \<notin> set (snd old)" by simp
    from count_zero_outside [OF k this [unfolded old_def]] show ?thesis
      unfolding old_def new_def removed_for_text [OF k] by simp
  qed
  ultimately show ?thesis
    unfolding semantic_diff_concat Let_def old_def [symmetric] new_def [symmetric] keys_def [symmetric]
    by simp
qed

lemma semantic_diff_added_key:
  fixes k old_text new_text :: pystr
  assumes k: "k \<noteq> []"
  shows "filter (\<lambda>e. normalize_line (entry_text e) = k) (fst (semantic_diff old_text new_text))
         = added_for (build_norm old_text) (build_norm new_text) k"
proof -
  define old where "old = build_norm old_text"
  define new where "new = build_norm new_text"
  define keys where "keys = sorted_list_of_set (set (snd old) \<union> set (snd new))"
  have keys: "set keys = set (snd old) \<union> set (snd new)" "distinct keys"
    unfolding keys_def by simp_all
  have own: "\<forall>k'\<in>set keys. \<forall>e\<in>set (added_for old new k'). normalize_line (entry_text e) = k'"
  proof (intro ballI)
    fix k' e assume "k' \<in> set keys" and e: "e \<in> set (added_for old new k')"
    then have "k' \<noteq> []" using keys Nil_notin_norm_list unfolding old_def new_def by auto
    from added_for_member [OF this e [unfolded old_def new_def]]
    show "normalize_line (entry_text e) = k'" by blast
  qed
  have "filter (\<lambda>e. normalize_line (entry_text e) = k) (concat (map (added_for old new) keys))
      = (if k \<in> set keys then added_for old new k else [])"
    using keys(2) own by (rule filter_concat_key)
  moreover have "added_for old new k = []" if "k \<notin> set keys"
  proof -
    from that keys have "k \<notin> set (snd new)" by simp
    from count_zero_outside [OF k this [unfolded new_def]] show ?thesis
      unfolding old_def new_def added_for_text [OF k] by simp
  qed
  ultimately show ?thesis
    unfolding semantic_diff_concat Let_def old_def [symmetric] new_def [symmetric] keys_def [symmetric]
    by simp
qed

lemma compare_removed_key:
  "k \<noteq> [] \<Longrightarrow> filter (\<lambda>e. normalize_line (entry_text e) = k) (removed (compare so old_text new_text))
     = removed_for (build_norm old_text) (build_norm new_text) k"
proof -
  assume k: "k \<noteq> []"
  have "filter (\<lambda>e. normalize_line (entry_text e) = k) (removed (compare so old_text new_text))
      = sort_key skey (removed_for (build_norm old_text) (build_norm new_text) k)"
    by (simp add: compare_removed filter_sort semantic_diff_removed_key [OF k])
  also have "\<dots> = removed_for (build_norm old_text) (build_norm new_text) k"
    unfolding removed_for_text [OF k]
    by (rule sort_key_id_if_sorted) (simp add: sorted_replicate)
  finally show ?thesis .
qed

lemma compare_added_key:
  "k \<noteq> [] \<Longrightarrow> filter (\<lambda>e. normalize_line (entry_text e) = k) (added (compare so old_text new_text))
     = added_for (build_norm old_text) (build_norm new_text) k"
proof -
  assume k: "k \<noteq> []"
  have "filter (\<lambda>e. normalize_line (entry_text e) = k) (added (compare so old_text new_text))
      = sort_key skey (added_for (build_norm old_text) (build_norm new_text) k)"
    by (simp add: compare_added filter_sort semantic_diff_added_key [OF k])
  also have "\<dots> = added_for (build_norm old_text) (build_norm new_text) k"
    unfolding added_for_text [OF k]
    by (rule sort_key_id_if_sorted) (simp add: sorted_replicate)
  finally show ?thesis .
qed



subsection \<open>The count-aware diff\<close>

text \<open>
  Claim C1 (count-aware diff). Let \<open>k\<close> be a normalized key (not empty), and let the
  old text have \<open>old_count\<close> and the new text \<open>new_count\<close> lines that are not noise and
  normalize to \<open>k\<close>. Then exactly \<open>old_count - new_count\<close> entries of \<^verbatim>\<open>removed\<close>
  and exactly \<open>new_count - old_count\<close> entries of \<^verbatim>\<open>added\<close> belong to \<open>k\<close>
  (the subtraction stops at 0), and each of them carries the first such line of the old
  (of the new) text, stripped, with the category and severity of that line. In particular
  three lines \<^verbatim>\<open>Choose Save.\<close> against one give exactly two removed entries with the
  text \<^verbatim>\<open>Choose Save.\<close> and no added entry.
\<close>


theorem count_aware_diff:
  assumes k: "k \<noteq> []"
  shows
    "let r = compare so old_text new_text;
         old_lines = filter (\<lambda>l. \<not> is_noise l \<and> normalize_line l = k) (splitlines old_text);
         new_lines = filter (\<lambda>l. \<not> is_noise l \<and> normalize_line l = k) (splitlines new_text);
         for_key = (\<lambda>e. normalize_line (entry_text e) = k)
     in length (filter for_key (removed r)) = length old_lines - length new_lines \<and>
        length (filter for_key (added r)) = length new_lines - length old_lines \<and>
        (\<forall>e\<in>set (removed r). for_key e \<longrightarrow>
           old_lines \<noteq> [] \<and> entry_text e = strip (hd old_lines) \<and>
           entry_category e = classify_line (entry_text e) \<and>
           entry_severity e = severity_for (entry_category e) \<and> entry_category e \<noteq> noise) \<and>
        (\<forall>e\<in>set (added r). for_key e \<longrightarrow>
           new_lines \<noteq> [] \<and> entry_text e = strip (hd new_lines) \<and>
           entry_category e = classify_line (entry_text e) \<and>
           entry_severity e = severity_for (entry_category e) \<and> entry_category e \<noteq> noise) \<and>
        removed (compare so (join_lines [lit ''Choose Save.'', lit ''Choose Save.'', lit ''Choose Save.''])
                   (lit ''Choose Save.''))
          = [\<lparr>entry_text = lit ''Choose Save.'', entry_severity = HIGH, entry_category = instruction\<rparr>,
             \<lparr>entry_text = lit ''Choose Save.'', entry_severity = HIGH, entry_category = instruction\<rparr>] \<and>
        added (compare so (join_lines [lit ''Choose Save.'', lit ''Choose Save.'', lit ''Choose Save.''])
                 (lit ''Choose Save.'')) = []"
proof -
  define old_lines where
    "old_lines = filter (\<lambda>l. \<not> is_noise l \<and> normalize_line l = k) (splitlines old_text)"
  define new_lines where
    "new_lines = filter (\<lambda>l. \<not> is_noise l \<and> normalize_line l = k) (splitlines new_text)"
  define r where "r = compare so old_text new_text"
  have rk: "filter (\<lambda>e. normalize_line (entry_text e) = k) (removed r)
      = removed_for (build_norm old_text) (build_norm new_text) k"
    unfolding r_def by (rule compare_removed_key [OF k])
  have ak: "filter (\<lambda>e. normalize_line (entry_text e) = k) (added r)
      = added_for (build_norm old_text) (build_norm new_text) k"
    unfolding r_def by (rule compare_added_key [OF k])
  have c1: "length (filter (\<lambda>e. normalize_line (entry_text e) = k) (removed r))
      = length old_lines - length new_lines"
    unfolding rk removed_for_text [OF k] old_lines_def new_lines_def by simp
  have c2: "length (filter (\<lambda>e. normalize_line (entry_text e) = k) (added r))
      = length new_lines - length old_lines"
    unfolding ak added_for_text [OF k] old_lines_def new_lines_def by simp
  have c3: "old_lines \<noteq> [] \<and> entry_text e = strip (hd old_lines) \<and>
           entry_category e = classify_line (entry_text e) \<and>
           entry_severity e = severity_for (entry_category e) \<and> entry_category e \<noteq> noise"
    if "e \<in> set (removed r)" "normalize_line (entry_text e) = k" for e
  proof -
    from that have "e \<in> set (filter (\<lambda>e. normalize_line (entry_text e) = k) (removed r))" by simp
    then have "e \<in> set (removed_for (build_norm old_text) (build_norm new_text) k)"
      unfolding rk .
    from removed_for_member [OF k this] show ?thesis
      unfolding old_lines_def by (auto simp: change_entry_def)
  qed
  have c4: "new_lines \<noteq> [] \<and> entry_text e = strip (hd new_lines) \<and>
           entry_category e = classify_line (entry_text e) \<and>
           entry_severity e = severity_for (entry_category e) \<and> entry_category e \<noteq> noise"
    if "e \<in> set (added r)" "normalize_line (entry_text e) = k" for e
  proof -
    from that have "e \<in> set (filter (\<lambda>e. normalize_line (entry_text e) = k) (added r))" by simp
    then have "e \<in> set (added_for (build_norm old_text) (build_norm new_text) k)"
      unfolding ak .
    from added_for_member [OF k this] show ?thesis
      unfolding new_lines_def by (auto simp: change_entry_def)
  qed
  have sd: "semantic_diff (join_lines [lit ''Choose Save.'', lit ''Choose Save.'', lit ''Choose Save.''])
       (lit ''Choose Save.'')
      = ([], [\<lparr>entry_text = lit ''Choose Save.'', entry_severity = HIGH, entry_category = instruction\<rparr>,
             \<lparr>entry_text = lit ''Choose Save.'', entry_severity = HIGH, entry_category = instruction\<rparr>])"
    by code_simp
  have c5: "removed (compare so (join_lines [lit ''Choose Save.'', lit ''Choose Save.'', lit ''Choose Save.''])
                   (lit ''Choose Save.''))
          = [\<lparr>entry_text = lit ''Choose Save.'', entry_severity = HIGH, entry_category = instruction\<rparr>,
             \<lparr>entry_text = lit ''Choose Save.'', entry_severity = HIGH, entry_category = instruction\<rparr>]"
    unfolding compare_removed sd by (simp add: skey_def)
  have c6: "added (compare so (join_lines [lit ''Choose Save.'', lit ''Choose Save.'', lit ''Choose Save.''])
                 (lit ''Choose Save.'')) = []"
    unfolding compare_added sd by simp
  from c1 c2 c3 c4 c5 c6 show ?thesis
    unfolding Let_def r_def [symmetric] old_lines_def [symmetric] new_lines_def [symmetric]
    by blast
qed

theorem count_aware_diff_witness:
  "lit ''choose save.'' \<noteq> [] \<and>
   length (filter (\<lambda>e. normalize_line (entry_text e) = lit ''choose save.'')
      (removed (compare sorted_list_of_set
         (join_lines [lit ''Choose Save.'', lit '' 2. choose   save.'', lit ''Other line'', lit ''CHOOSE SAVE.''])
         (join_lines [lit ''Other line'', lit ''- Choose Save.''])))) = 2 \<and>
   length (filter (\<lambda>e. normalize_line (entry_text e) = lit ''choose save.'')
      (added (compare sorted_list_of_set
         (join_lines [lit ''Choose Save.'', lit '' 2. choose   save.'', lit ''Other line'', lit ''CHOOSE SAVE.''])
         (join_lines [lit ''Other line'', lit ''- Choose Save.''])))) = 0"
proof -
  have k: "lit ''choose save.'' \<noteq> []" by (simp add: lit_def)
  have o: "length (filter (\<lambda>l. \<not> is_noise l \<and> normalize_line l = lit ''choose save.'')
      (splitlines (join_lines [lit ''Choose Save.'', lit '' 2. choose   save.'', lit ''Other line'', lit ''CHOOSE SAVE.'']))) = 3"
    by code_simp
  have n: "length (filter (\<lambda>l. \<not> is_noise l \<and> normalize_line l = lit ''choose save.'')
      (splitlines (join_lines [lit ''Other line'', lit ''- Choose Save.'']))) = 1"
    by code_simp
  from count_aware_diff [OF k, of sorted_list_of_set
      "join_lines [lit ''Choose Save.'', lit '' 2. choose   save.'', lit ''Other line'', lit ''CHOOSE SAVE.'']"
      "join_lines [lit ''Other line'', lit ''- Choose Save.'']"] k o n
  show ?thesis unfolding Let_def by simp
qed

subsection \<open>The change flag\<close>

text \<open>
  Claim C2. \<^verbatim>\<open>has_changes\<close> is true if and only if \<^verbatim>\<open>added\<close> or
  \<^verbatim>\<open>removed\<close> is not empty; the structural warnings have no part in it.
\<close>

theorem has_changes_iff:
  "has_changes (compare so old_text new_text) \<longleftrightarrow>
     added (compare so old_text new_text) \<noteq> [] \<or> removed (compare so old_text new_text) \<noteq> []"
  by (simp add: compare_has_changes compare_added compare_removed sort_key_Nil_iff)

theorem has_changes_iff_witness:
  "has_changes (compare sorted_list_of_set
      (join_lines [lit ''1. a'', lit ''2. b'', lit ''3. c''])
      (join_lines [lit ''1. a'', lit ''2. b'', lit ''4. c''])) = False \<and>
   length (structural_warnings (compare sorted_list_of_set
      (join_lines [lit ''1. a'', lit ''2. b'', lit ''3. c''])
      (join_lines [lit ''1. a'', lit ''2. b'', lit ''4. c'']))) = 1 \<and>
   has_changes (compare sorted_list_of_set (lit ''Choose Save.'') (lit ''Choose Cancel.'')) = True"
proof -
  have a: "added (compare sorted_list_of_set
      (join_lines [lit ''1. a'', lit ''2. b'', lit ''3. c''])
      (join_lines [lit ''1. a'', lit ''2. b'', lit ''4. c''])) = []" by code_simp
  have r: "removed (compare sorted_list_of_set
      (join_lines [lit ''1. a'', lit ''2. b'', lit ''3. c''])
      (join_lines [lit ''1. a'', lit ''2. b'', lit ''4. c''])) = []" by code_simp
  have w: "length (structural_warnings (compare sorted_list_of_set
      (join_lines [lit ''1. a'', lit ''2. b'', lit ''3. c''])
      (join_lines [lit ''1. a'', lit ''2. b'', lit ''4. c'']))) = 1" by code_simp
  have a2: "length (added (compare sorted_list_of_set (lit ''Choose Save.'') (lit ''Choose Cancel.''))) = 1"
    by code_simp
  then have a3: "added (compare sorted_list_of_set (lit ''Choose Save.'') (lit ''Choose Cancel.'')) \<noteq> []"
    by auto
  from has_changes_iff [of sorted_list_of_set
      "join_lines [lit ''1. a'', lit ''2. b'', lit ''3. c'']"
      "join_lines [lit ''1. a'', lit ''2. b'', lit ''4. c'']"]
    has_changes_iff [of sorted_list_of_set "lit ''Choose Save.''" "lit ''Choose Cancel.''"]
    a r w a3
  show ?thesis by simp
qed

subsection \<open>Numbering gaps\<close>









subsection \<open>Missing prerequisites\<close>

lemma foldl_insert_if:
  "foldl (\<lambda>out line. if P line then insert (f line) out else out) A ls
     = A \<union> f ` {l \<in> set ls. P l}"
  by (induction ls arbitrary: A) auto

lemma prereq_lines_eq:
  "prereq_lines t = normalize_line ` {l \<in> set (splitlines t). classify_line l = prerequisite}"
  by (simp add: prereq_lines_def foldl_insert_if)

lemma finite_prereq_lines: "finite (prereq_lines t)"
  by (simp add: prereq_lines_eq)

lemma prerequisite_warning_inj: "prerequisite_warning n = prerequisite_warning m \<longleftrightarrow> n = m"
  by (simp add: prerequisite_warning_def)

lemma count_distinct_map:
  assumes "distinct xs" and "\<And>a b. f a = f b \<longleftrightarrow> a = b"
  shows "length (filter (\<lambda>w. w = f n) (map f xs)) = (if n \<in> set xs then 1 else 0)"
  using assms(1)
proof (induction xs)
  case Nil
  show ?case by simp
next
  case (Cons x xs)
  then show ?case by (auto simp: assms(2) filter_empty_conv)
qed

lemma iteration_order_singleton:
  assumes "iteration_order so"
  shows "so {x} = [x]"
proof -
  from assms have s: "set (so {x}) = {x}" and d: "distinct (so {x})"
    unfolding iteration_order_def by simp_all
  show ?thesis
  proof (cases "so {x}")
    case Nil
    with s show ?thesis by simp
  next
    case (Cons a ys)
    with s have a: "a = x" and ys: "set ys \<subseteq> {x}" by auto
    from d Cons a have "x \<notin> set ys" by simp
    with ys have "ys = []" by (cases ys) auto
    with Cons a show ?thesis by simp
  qed
qed

text \<open>
  Claim C8 (missing prerequisites), as amended. For every iteration order of the set: a
  normalized line \<open>n\<close> that some line of the old text classified as prerequisite has,
  and no line of the new text classified as prerequisite has, gets exactly one warning of
  type MISSING_PREREQUISITE and severity HIGH with the message
  \<^verbatim>\<open>Prerequisite removed: "n"\<close>; any other \<open>n\<close> gets none, and every
  MISSING_PREREQUISITE warning comes from such a line of the old text. The normalized line
  is lower-cased and keeps its first words: when the old text has the line
  \<^verbatim>\<open>You must have admin access.\<close> and the new text omits it, the single warning's
  message is \<^verbatim>\<open>Prerequisite removed: "you must have admin access."\<close>.
\<close>

theorem missing_prerequisite_detection:
  assumes so: "iteration_order so"
  shows
    "length (filter (\<lambda>w. w = \<lparr>warning_type = MISSING_PREREQUISITE, warning_severity = HIGH,
                            warning_message = lit ''Prerequisite removed: '' @ [34] @ n @ [34]\<rparr>)
               (structural_warnings (compare so old new)))
       = (if (\<exists>l\<in>set (splitlines old). classify_line l = prerequisite \<and> normalize_line l = n) \<and>
             \<not> (\<exists>l\<in>set (splitlines new). classify_line l = prerequisite \<and> normalize_line l = n)
          then 1 else 0) \<and>
     (\<forall>w\<in>set (structural_warnings (compare so old new)).
        warning_type w = MISSING_PREREQUISITE \<longrightarrow>
          (\<exists>l\<in>set (splitlines old). classify_line l = prerequisite \<and>
             w = \<lparr>warning_type = MISSING_PREREQUISITE, warning_severity = HIGH,
                  warning_message = lit ''Prerequisite removed: '' @ [34] @ normalize_line l @ [34]\<rparr>)) \<and>
     structural_warnings (compare so
        (join_lines [lit ''Prerequisites'', lit ''You must have admin access.'', lit ''Procedure''])
        (join_lines [lit ''Prerequisites'', lit ''Procedure'']))
       = [\<lparr>warning_type = MISSING_PREREQUISITE, warning_severity = HIGH,
           warning_message =
             lit ''Prerequisite removed: '' @ [34] @ lit ''you must have admin access.'' @ [34]\<rparr>]"
proof -
  define S where "S = prereq_lines old - prereq_lines new"
  define new_only where "new_only = filter (\<lambda>w. warning_message w \<notin>
      set (map warning_message (detect_numbering_gaps old @ detect_missing_sections old)))
      (detect_numbering_gaps new @ detect_missing_sections new)"
  have fin: "finite S" unfolding S_def by (simp add: finite_prereq_lines)
  with so have set_so: "set (so S) = S" and dist: "distinct (so S)"
    unfolding iteration_order_def by simp_all
  have sw: "structural_warnings (compare so old new) = new_only @ map prerequisite_warning (so S)"
    unfolding compare_structural_warnings_eq validate_structure_def Let_def
      detect_missing_prerequisites_map new_only_def S_def ..
  have other: "warning_type w \<noteq> MISSING_PREREQUISITE" if "w \<in> set new_only" for w
    using that unfolding new_only_def
    by (auto dest: detect_numbering_gaps_high detect_missing_sections_high)
  have pw: "\<lparr>warning_type = MISSING_PREREQUISITE, warning_severity = HIGH,
             warning_message = lit ''Prerequisite removed: '' @ [34] @ m @ [34]\<rparr>
      = prerequisite_warning m" for m
    by (simp add: prerequisite_warning_def)
  have pt: "warning_type (prerequisite_warning n) = MISSING_PREREQUISITE"
    by (simp add: prerequisite_warning_def)
  have "filter (\<lambda>w. w = prerequisite_warning n) new_only = []"
    using other pt by (auto simp: filter_empty_conv)
  then have "length (filter (\<lambda>w. w = prerequisite_warning n) (structural_warnings (compare so old new)))
      = (if n \<in> S then 1 else 0)"
    unfolding sw using count_distinct_map [OF dist prerequisite_warning_inj, of n]
    by (simp add: set_so)
  moreover have "n \<in> S \<longleftrightarrow>
      (\<exists>l\<in>set (splitlines old). classify_line l = prerequisite \<and> normalize_line l = n) \<and>
      \<not> (\<exists>l\<in>set (splitlines new). classify_line l = prerequisite \<and> normalize_line l = n)"
    unfolding S_def prereq_lines_eq image_iff by blast
  ultimately have c1: "length (filter (\<lambda>w. w = prerequisite_warning n)
        (structural_warnings (compare so old new)))
       = (if (\<exists>l\<in>set (splitlines old). classify_line l = prerequisite \<and> normalize_line l = n) \<and>
             \<not> (\<exists>l\<in>set (splitlines new). classify_line l = prerequisite \<and> normalize_line l = n)
          then 1 else 0)"
    by simp
  have c2: "\<exists>l\<in>set (splitlines old). classify_line l = prerequisite \<and>
             w = prerequisite_warning (normalize_line l)"
    if "w \<in> set (structural_warnings (compare so old new))" "warning_type w = MISSING_PREREQUISITE" for w
  proof -
    from that other have "w \<in> prerequisite_warning ` S"
      unfolding sw by (auto simp: set_so)
    then show ?thesis unfolding S_def prereq_lines_eq by auto
  qed
  have ex_set: "prereq_lines (join_lines [lit ''Prerequisites'', lit ''You must have admin access.'', lit ''Procedure''])
        - prereq_lines (join_lines [lit ''Prerequisites'', lit ''Procedure''])
      = {lit ''you must have admin access.''}"
    by code_simp
  have ex_new: "filter (\<lambda>w. warning_message w \<notin>
      set (map warning_message
        (detect_numbering_gaps (join_lines [lit ''Prerequisites'', lit ''You must have admin access.'', lit ''Procedure'']) @
         detect_missing_sections (join_lines [lit ''Prerequisites'', lit ''You must have admin access.'', lit ''Procedure'']))))
      (detect_numbering_gaps (join_lines [lit ''Prerequisites'', lit ''Procedure'']) @
       detect_missing_sections (join_lines [lit ''Prerequisites'', lit ''Procedure''])) = []"
    by code_simp
  have c3: "structural_warnings (compare so
        (join_lines [lit ''Prerequisites'', lit ''You must have admin access.'', lit ''Procedure''])
        (join_lines [lit ''Prerequisites'', lit ''Procedure'']))
       = [prerequisite_warning (lit ''you must have admin access.'')]"
    unfolding compare_structural_warnings_eq validate_structure_def Let_def
      detect_missing_prerequisites_map ex_set ex_new iteration_order_singleton [OF so]
    by simp
  from c1 c2 c3 show ?thesis unfolding pw by blast
qed

text \<open>
  The claim as the specification states it names the normalized text
  \<^verbatim>\<open>have admin access.\<close>, with the words ``you must'' stripped. Normalization
  strips no such words: the normalized line and the message keep them.
\<close>

theorem missing_prerequisite_detection_counterexample:
  "structural_warnings (compare sorted_list_of_set
        (join_lines [lit ''Prerequisites'', lit ''You must have admin access.'', lit ''Procedure''])
        (join_lines [lit ''Prerequisites'', lit ''Procedure'']))
       = [\<lparr>warning_type = MISSING_PREREQUISITE, warning_severity = HIGH,
           warning_message =
             lit ''Prerequisite removed: '' @ [34] @ lit ''you must have admin access.'' @ [34]\<rparr>] \<and>
   normalize_line (lit ''You must have admin access.'') = lit ''you must have admin access.'' \<and>
   normalize_line (lit ''You must have admin access.'') \<noteq> lit ''have admin access.'' \<and>
   lit ''Prerequisite removed: '' @ [34] @ lit ''you must have admin access.'' @ [34]
     \<noteq> lit ''Prerequisite removed: '' @ [34] @ lit ''have admin access.'' @ [34]"
  by code_simp

theorem missing_prerequisite_detection_witness:
  "iteration_order (\<lambda>S. rev (sorted_list_of_set S)) \<and>
   length (filter (\<lambda>w. w = \<lparr>warning_type = MISSING_PREREQUISITE, warning_severity = HIGH,
                            warning_message = lit ''Prerequisite removed: '' @ [34] @
                              lit ''you have a role.'' @ [34]\<rparr>)
               (structural_warnings (compare (\<lambda>S. rev (sorted_list_of_set S))
                  (join_lines [lit ''You must have admin access.'', lit ''- You have a role.'',
                               lit ''You have a role.'', lit ''you've logged on'', lit ''Choose Save.''])
                  (join_lines [lit ''* You've  logged on'', lit ''Choose Save.''])))) = 1"
proof -
  have a: "list_ex (\<lambda>l. classify_line l = prerequisite \<and> normalize_line l = lit ''you have a role.'')
      (splitlines (join_lines [lit ''You must have admin access.'', lit ''- You have a role.'',
                               lit ''You have a role.'', lit ''you've logged on'', lit ''Choose Save.'']))"
    by code_simp
  have b: "\<not> list_ex (\<lambda>l. classify_line l = prerequisite \<and> normalize_line l = lit ''you have a role.'')
      (splitlines (join_lines [lit ''* You've  logged on'', lit ''Choose Save.'']))"
    by code_simp
  from missing_prerequisite_detection [OF iteration_order_rev_sorted,
      where n = "lit ''you have a role.''"
      and old = "join_lines [lit ''You must have admin access.'', lit ''- You have a role.'',
                               lit ''You have a role.'', lit ''you've logged on'', lit ''Choose Save.'']"
      and new = "join_lines [lit ''* You've  logged on'', lit ''Choose Save.'']"]
    a b iteration_order_rev_sorted
  show ?thesis unfolding list_ex_iff by simp
qed

subsection \<open>Cosmetic changes\<close>

lemma norm_list_cong:
  "list_all2 (\<lambda>l l'. is_noise l = is_noise l' \<and> (\<not> is_noise l \<longrightarrow> normalize_line l = normalize_line l')) ls ls' \<Longrightarrow>
   map normalize_line (filter (\<lambda>l. \<not> is_noise l \<and> normalize_line l \<noteq> []) ls)
     = map normalize_line (filter (\<lambda>l. \<not> is_noise l \<and> normalize_line l \<noteq> []) ls')"
  by (induction rule: list_all2_induct) auto

lemma diff_step_equal_lists: "snd old = snd new \<Longrightarrow> diff_step old new st k = st"
  by (cases st) (simp add: diff_step_def Let_def)

lemma foldl_diff_step_equal_lists: "snd old = snd new \<Longrightarrow> foldl (diff_step old new) st ks = st"
  by (induction ks arbitrary: st) (simp_all add: diff_step_equal_lists)

lemma same_normalized_lines_no_change:
  assumes "list_all2 (\<lambda>l l'. is_noise l = is_noise l' \<and> (\<not> is_noise l \<longrightarrow> normalize_line l = normalize_line l'))
             (splitlines T) (splitlines T')"
  shows "added (compare so T T') = [] \<and> removed (compare so T T') = []"
proof -
  from assms have "snd (build_norm T) = snd (build_norm T')"
    unfolding build_norm_snd by (rule norm_list_cong)
  then have "semantic_diff T T' = ([], [])"
    by (simp add: semantic_diff_def Let_def foldl_diff_step_equal_lists)
  then show ?thesis by (simp add: compare_added compare_removed)
qed

subsection \<open>Character maps that keep the character classes\<close>


















subsection \<open>Runs of white space\<close>







lemma rstrip_chars_all: "\<forall>t\<in>set T. P t \<Longrightarrow> rstrip_chars P T = []"
  by (simp add: rstrip_chars_def)





















subsection \<open>Lines of an edited text\<close>

lemma not_linebreak_13: "\<not> islinebreak c \<Longrightarrow> c \<noteq> 13" and not_linebreak_10: "\<not> islinebreak c \<Longrightarrow> c \<noteq> 10"
  by (auto simp: islinebreak_def)
















subsection \<open>The order of the prerequisite warnings\<close>

lemma filter_type_prerequisite:
  "filter (\<lambda>w. warning_type w = MISSING_PREREQUISITE) (validate_structure so old new)
     = detect_missing_prerequisites so old new"
proof -
  have a: "filter (\<lambda>w. warning_type w = MISSING_PREREQUISITE) (filter P (detect_numbering_gaps new)) = []" for P
    by (auto simp: filter_empty_conv dest: detect_numbering_gaps_high)
  have b: "filter (\<lambda>w. warning_type w = MISSING_PREREQUISITE) (filter P (detect_missing_sections new)) = []" for P
    by (auto simp: filter_empty_conv dest: detect_missing_sections_high)
  have c: "filter (\<lambda>w. warning_type w = MISSING_PREREQUISITE) (detect_missing_prerequisites so old new)
      = detect_missing_prerequisites so old new"
    by (rule filter_True) (auto dest: detect_missing_prerequisites_high)
  show ?thesis
    by (simp only: validate_structure_def Let_def filter_append a b c append_Nil)
qed

text \<open>
  Claim C9 (determinism of the output order). The entries of \<^verbatim>\<open>added\<close> and
  \<^verbatim>\<open>removed\<close> follow the ascending order of the normalized keys, but the
  MISSING_PREREQUISITE warnings of the result stand in the order in which the set
  difference of the normalized prerequisite lines is iterated, whatever that order is: the
  code does not sort it. For the same two texts, two iteration orders give two different
  results.
\<close>

theorem prerequisite_warning_order:
  "filter (\<lambda>w. warning_type w = MISSING_PREREQUISITE) (structural_warnings (compare so old new))
     = map prerequisite_warning (so (prereq_lines old - prereq_lines new))"
  by (simp only: compare_structural_warnings_eq filter_type_prerequisite
      detect_missing_prerequisites_map)


theorem prerequisite_warning_order_witness:
  "filter (\<lambda>w. warning_type w = MISSING_PREREQUISITE)
     (structural_warnings (compare sorted_list_of_set
        (join_lines [lit ''You must have admin access.'', lit ''You have a role.'']) []))
     = [prerequisite_warning (lit ''you have a role.''),
        prerequisite_warning (lit ''you must have admin access.'')] \<and>
   filter (\<lambda>w. warning_type w = MISSING_PREREQUISITE)
     (structural_warnings (compare (\<lambda>S. rev (sorted_list_of_set S))
        (join_lines [lit ''You must have admin access.'', lit ''You have a role.'']) []))
     = [prerequisite_warning (lit ''you must have admin access.''),
        prerequisite_warning (lit ''you have a role.'')] \<and>
   compare sorted_list_of_set
        (join_lines [lit ''You must have admin access.'', lit ''You have a role.'']) []
     \<noteq> compare (\<lambda>S. rev (sorted_list_of_set S))
        (join_lines [lit ''You must have admin access.'', lit ''You have a role.'']) []"
proof -
  define old where "old = join_lines [lit ''You must have admin access.'', lit ''You have a role.'']"
  define r1 where "r1 = compare sorted_list_of_set old []"
  define r2 where "r2 = compare (\<lambda>S. rev (sorted_list_of_set S)) old []"
  define x where "x = prerequisite_warning (lit ''you have a role.'')"
  define y where "y = prerequisite_warning (lit ''you must have admin access.'')"
  have s: "sorted_list_of_set (prereq_lines old - prereq_lines [])
      = [lit ''you have a role.'', lit ''you must have admin access.'']"
    unfolding old_def by code_simp
  have "filter (\<lambda>w. warning_type w = MISSING_PREREQUISITE) (structural_warnings r1)
     = map prerequisite_warning (sorted_list_of_set (prereq_lines old - prereq_lines []))"
    unfolding r1_def by (rule prerequisite_warning_order)
  then have a: "filter (\<lambda>w. warning_type w = MISSING_PREREQUISITE) (structural_warnings r1) = [x, y]"
    by (simp only: s list.map x_def y_def)
  have "filter (\<lambda>w. warning_type w = MISSING_PREREQUISITE) (structural_warnings r2)
     = map prerequisite_warning (rev (sorted_list_of_set (prereq_lines old - prereq_lines [])))"
    unfolding r2_def by (rule prerequisite_warning_order)
  then have b: "filter (\<lambda>w. warning_type w = MISSING_PREREQUISITE) (structural_warnings r2) = [y, x]"
    by (simp only: s list.map rev.simps append.simps x_def y_def)
  have "lit ''you have a role.'' \<noteq> lit ''you must have admin access.''"
    by (simp add: lit_def)
  then have xy: "x \<noteq> y" unfolding x_def y_def by (simp only: prerequisite_warning_inj not_False_eq_True)
  have c: "r1 \<noteq> r2"
  proof
    assume "r1 = r2"
    with a b have "[x, y] = [y, x]" by (simp only:)
    with xy show False by simp
  qed
  show ?thesis
    using a b c unfolding r1_def r2_def x_def y_def old_def by (intro conjI)
qed

end
